theory Spec2Isabelle
  imports Complex_Main
begin

section \<open>Floating-point values\<close>

text \<open>
  The tracker computes with C++ \<open>float\<close> and \<open>double\<close>, the formats binary32 and
  binary64 of IEEE 754. A value is the real number it denotes, or one of the two kinds of
  special value that the validity guard of the frame callback tests for. The sign of an
  infinity and of a zero is not recorded: the only test the tracker applies to an infinity
  is \<open>std::isinf\<close>, which does not look at the sign, and the operations it applies never
  need the sign to decide the kind of the result.
\<close>

datatype fval = Fin real | Inf | NaN

fun isnan :: "fval \<Rightarrow> bool" where
  "isnan NaN = True"
| "isnan _ = False"

fun isinf :: "fval \<Rightarrow> bool" where
  "isinf Inf = True"
| "isinf _ = False"

text \<open>
  A format is its precision (the number of significand bits) and the exponents of its
  smallest and largest normal numbers. Its finite numbers are the integers of magnitude
  below \<open>2 ^ precision\<close> scaled by a power of two that is at least
  \<open>2 powi (emin - precision + 1)\<close>, below \<open>2 powi (emax + 1)\<close> in magnitude.
\<close>

record format =
  precision :: nat
  emin :: int
  emax :: int

definition binary32 :: format where
  "binary32 = \<lparr>precision = 24, emin = - 126, emax = 127\<rparr>"

definition binary64 :: format where
  "binary64 = \<lparr>precision = 53, emin = - 1022, emax = 1023\<rparr>"

definition representable :: "format \<Rightarrow> real \<Rightarrow> bool" where
  "representable fmt r =
     (\<exists>m k. r = of_int m * 2 powi k \<and> \<bar>m\<bar> < 2 ^ precision fmt
          \<and> emin fmt - int (precision fmt) + 1 \<le> k \<and> \<bar>r\<bar> < 2 powi (emax fmt + 1))"

text \<open>
  Rounding to nearest, ties to even. The exponent of a real is that of the binade it lies
  in, held between \<open>emin\<close> (below it the numbers are subnormal and equally spaced) and
  \<open>emax\<close>; it is found by searching downwards from \<open>emax\<close>. The real is divided by
  the spacing of the format's numbers at that exponent, the quotient rounded to the
  nearest integer, the even one at a tie, and scaled back. A result that reaches
  \<open>2 powi (emax + 1)\<close> has overflowed and is infinite; a real of at most half the
  smallest subnormal number rounds to zero.
\<close>

definition round_even :: "real \<Rightarrow> int" where
  "round_even q =
     (let f = \<lfloor>q\<rfloor> in
      if q - of_int f < 1 / 2 then f
      else if 1 / 2 < q - of_int f then f + 1
      else if even f then f else f + 1)"

fun find_exponent :: "nat \<Rightarrow> int \<Rightarrow> real \<Rightarrow> int" where
  "find_exponent 0 e r = e"
| "find_exponent (Suc k) e r = (if 2 powi e \<le> r then e else find_exponent k (e - 1) r)"

definition exponent :: "format \<Rightarrow> real \<Rightarrow> int" where
  "exponent fmt r = find_exponent (nat (emax fmt - emin fmt)) (emax fmt) \<bar>r\<bar>"

definition ulp :: "format \<Rightarrow> real \<Rightarrow> real" where
  "ulp fmt r = 2 powi (exponent fmt r - int (precision fmt) + 1)"

definition rnd :: "format \<Rightarrow> real \<Rightarrow> fval" where
  "rnd fmt r =
     (let v = of_int (round_even (r / ulp fmt r)) * ulp fmt r
      in if 2 powi (emax fmt + 1) \<le> \<bar>v\<bar> then Inf else Fin v)"

definition wellformed :: "format \<Rightarrow> bool" where
  "wellformed fmt = (0 < precision fmt \<and> emin fmt \<le> emax fmt)"

text \<open>
  The operations. Each rounds its exact result to the format in which C++ carries it out;
  the special values arise and propagate by the rules of IEEE 754. \<open>fcast\<close> converts a
  value to a format (the narrowing of a \<open>double\<close> to \<open>float\<close>). \<open>fadd\<close> and
  \<open>fsqrt\<close> are applied to squares and to their sum only, so an infinite argument of
  theirs is positive.
\<close>

fun fcast :: "format \<Rightarrow> fval \<Rightarrow> fval" where
  "fcast fmt (Fin x) = rnd fmt x"
| "fcast fmt Inf = Inf"
| "fcast fmt NaN = NaN"

fun fmul :: "format \<Rightarrow> fval \<Rightarrow> fval \<Rightarrow> fval" where
  "fmul fmt (Fin x) (Fin y) = rnd fmt (x * y)"
| "fmul fmt (Fin x) Inf = (if x = 0 then NaN else Inf)"
| "fmul fmt Inf (Fin y) = (if y = 0 then NaN else Inf)"
| "fmul fmt Inf Inf = Inf"
| "fmul fmt NaN _ = NaN"
| "fmul fmt _ NaN = NaN"

fun fdiv :: "format \<Rightarrow> fval \<Rightarrow> fval \<Rightarrow> fval" where
  "fdiv fmt (Fin x) (Fin y) =
     (if y = 0 then (if x = 0 then NaN else Inf) else rnd fmt (x / y))"
| "fdiv fmt (Fin x) Inf = Fin 0"
| "fdiv fmt Inf (Fin y) = Inf"
| "fdiv fmt Inf Inf = NaN"
| "fdiv fmt NaN _ = NaN"
| "fdiv fmt _ NaN = NaN"

fun fadd :: "format \<Rightarrow> fval \<Rightarrow> fval \<Rightarrow> fval" where
  "fadd fmt (Fin x) (Fin y) = rnd fmt (x + y)"
| "fadd fmt (Fin x) Inf = Inf"
| "fadd fmt Inf (Fin y) = Inf"
| "fadd fmt Inf Inf = Inf"
| "fadd fmt NaN _ = NaN"
| "fadd fmt _ NaN = NaN"

fun fsqrt :: "format \<Rightarrow> fval \<Rightarrow> fval" where
  "fsqrt fmt (Fin x) = (if x < 0 then NaN else rnd fmt (sqrt x))"
| "fsqrt fmt Inf = Inf"
| "fsqrt fmt NaN = NaN"

fun fneg :: "fval \<Rightarrow> fval" where
  "fneg (Fin x) = Fin (- x)"
| "fneg Inf = Inf"
| "fneg NaN = NaN"

section \<open>Data of the tracker\<close>

text \<open>
  Pixel coordinates are the finite coordinates that the marker detector returns
  (\<open>cv::Point2f\<close>). A detected marker is its identifier and its four corners in the
  detector's order: top left, top right, bottom right, bottom left. The detector fills
  \<open>ids\<close> and \<open>corners\<close> with one entry per marker and four points per entry, which is
  why \<open>corners[i][0]\<close> and \<open>corners[i][1]\<close> are read without a check.
\<close>

type_synonym point2f = "real \<times> real"

type_synonym point3f = "fval \<times> fval \<times> fval"

type_synonym vec3d = "fval \<times> fval \<times> fval"

record marker =
  marker_id :: int
  corner0 :: point2f
  corner1 :: point2f
  corner2 :: point2f
  corner3 :: point2f

definition corners :: "marker \<Rightarrow> point2f list" where
  "corners m = [corner0 m, corner1 m, corner2 m, corner3 m]"

text \<open>
  The difference of two points is taken coordinate by coordinate in \<open>float\<close>.
  \<open>cv::norm\<close> of a point is computed in \<open>double\<close>: the square root of the sum of the
  squared coordinates.
\<close>

definition point_sub :: "point2f \<Rightarrow> point2f \<Rightarrow> fval \<times> fval" where
  "point_sub p q = (rnd binary32 (fst p - fst q), rnd binary32 (snd p - snd q))"

definition norm_pt :: "fval \<times> fval \<Rightarrow> fval" where
  "norm_pt d =
     fsqrt binary64
       (fadd binary64 (fmul binary64 (fst d) (fst d)) (fmul binary64 (snd d) (snd d)))"

text \<open>
  A \<open>cv::Mat\<close> is the list of its rows. \<open>at00\<close> is \<open>at<double>(0, 0)\<close>: the first
  entry of the first row. On a matrix without entries the C++ read is outside the
  buffer; the model returns \<open>None\<close> there and the callback turns that into a fault.
\<close>

type_synonym mat = "fval list list"

definition mat_empty :: "mat \<Rightarrow> bool" where
  "mat_empty M = (concat M = [])"

fun at00 :: "mat \<Rightarrow> fval option" where
  "at00 ((x # _) # _) = Some x"
| "at00 _ = None"

datatype dictionary = DICT_4X4_50 | DICT_4X4_100 | DICT_4X4_250 | DICT_4X4_1000

record node =
  dictionary :: dictionary
  ground_distance :: fval
  camera_matrix :: mat
  dist_coeffs :: mat

record header =
  stamp_sec :: int
  stamp_nanosec :: nat
  frame_id :: string

record 'pix image_msg =
  header :: header
  encoding :: string
  data :: 'pix

record 'img cv_image =
  cv_header :: header
  cv_encoding :: string
  cv_image :: 'img

record distance_sensor =
  current_distance :: fval

definition BGR8 :: string where
  "BGR8 = ''bgr8''"

section \<open>Scale estimate\<close>

text \<open>
  Lines 89 and 90 of the frame callback. The pixel width is the norm of the difference of
  the first two corners, narrowed to \<open>float\<close>. The marker size is that width divided by
  the entry (0, 0) of the camera matrix, times the ground distance, both in \<open>double\<close>,
  and narrowed to \<open>float\<close>. Half the size (line 95) is a \<open>float\<close> division.
\<close>

definition pixel_width :: "marker \<Rightarrow> fval" where
  "pixel_width m = fcast binary32 (norm_pt (point_sub (corner0 m) (corner1 m)))"

definition marker_size :: "node \<Rightarrow> marker \<Rightarrow> fval option" where
  "marker_size n m =
     (case at00 (camera_matrix n) of
        None \<Rightarrow> None
      | Some fx \<Rightarrow>
          Some (fcast binary32
                  (fmul binary64 (fdiv binary64 (pixel_width m) fx) (ground_distance n))))"

definition objectPoints :: "fval \<Rightarrow> point3f list" where
  "objectPoints s =
     (let halfSize = fdiv binary32 s (Fin 2) in
      [(fneg halfSize, halfSize, Fin 0),
       (halfSize, halfSize, Fin 0),
       (halfSize, fneg halfSize, Fin 0),
       (fneg halfSize, fneg halfSize, Fin 0)])"

section \<open>Library calls, failures and the trace of a callback\<close>

text \<open>
  The image conversion, the marker detector, the pose solver and the drawing routines
  are library code. They are parameters of the model: a callback is defined for every
  behaviour they may have. A C++ call can leave by an exception, so the calls that the
  callback makes per frame and per marker return either a failure or their result.
  \<open>SegFault\<close> stands for the read outside the buffer of an empty matrix, which no
  handler catches.
\<close>

datatype failure = CvBridgeException | CvException | SegFault

record ('pix, 'img) opencv =
  toCvCopy :: "'pix image_msg \<Rightarrow> string \<Rightarrow> failure + 'img"
  detectMarkers :: "'img \<Rightarrow> dictionary \<Rightarrow> marker list"
  drawDetectedMarkers :: "'img \<Rightarrow> marker list \<Rightarrow> 'img"
  solvePnP :: "point3f list \<Rightarrow> point2f list \<Rightarrow> mat \<Rightarrow> mat \<Rightarrow> failure + (bool \<times> vec3d \<times> vec3d)"
  drawAxis :: "'img \<Rightarrow> mat \<Rightarrow> mat \<Rightarrow> vec3d \<Rightarrow> vec3d \<Rightarrow> fval \<Rightarrow> failure + 'img"

text \<open>
  What a callback does to the outside is recorded as a trace: the log lines, the calls
  of the pose solver and of the axis overlay with their arguments, and the published
  frame.
\<close>

datatype log_line = LogInfo string | LogError string | LogMarkerSize fval

datatype 'img event =
    Log log_line
  | CallDrawDetectedMarkers "marker list"
  | CallSolvePnP "point3f list" "point2f list" mat mat
  | CallDrawAxis vec3d vec3d fval
  | Publish "'img cv_image"

record 'img outcome =
  state :: node
  trace :: "'img event list"
  escaped :: "failure option"

section \<open>The node\<close>

text \<open>
  The constructor. The calibration file is \<open>None\<close> when it cannot be opened; when it
  opens, a key that is absent leaves its matrix empty. The conversion of the camera
  matrix to double precision changes no entry and leaves an empty matrix empty.
\<close>

record calibration_file =
  file_camera_matrix :: mat
  file_distortion_coefficients :: mat

definition ArucoTrackerNode :: "calibration_file option \<Rightarrow> node \<times> log_line list" where
  "ArucoTrackerNode fs =
     (let (K, D, log1) =
            (case fs of
               Some f \<Rightarrow> (file_camera_matrix f, file_distortion_coefficients f, [])
             | None \<Rightarrow> ([], [], [LogError ''Failed to open camera calibration file'']));
          log2 = (if mat_empty K \<or> mat_empty D
                  then [LogError ''Failed to load camera parameters correctly.''] else [])
      in (\<lparr>dictionary = DICT_4X4_250, ground_distance = Fin 1,
           camera_matrix = K, dist_coeffs = D\<rparr>,
          LogInfo ''ArucoTrackerNode :)'' # log1 @ log2))"

definition distance_sensor_callback :: "node \<Rightarrow> distance_sensor \<Rightarrow> node" where
  "distance_sensor_callback n msg = n\<lparr>ground_distance := current_distance msg\<rparr>"

text \<open>The body of the loop over the detected markers (lines 89 to 107).\<close>

definition process_marker ::
  "('pix, 'img) opencv \<Rightarrow> node \<Rightarrow> 'img \<Rightarrow> marker \<Rightarrow> 'img event list \<times> (failure + 'img)" where
  "process_marker cv n img m =
     (case marker_size n m of
        None \<Rightarrow> ([], Inl SegFault)
      | Some s \<Rightarrow>
          if \<not> isnan s \<and> \<not> isinf s then
            (let pre = [Log (LogMarkerSize s), Log (LogInfo ''solvePnP''),
                        CallSolvePnP (objectPoints s) (corners m)
                          (camera_matrix n) (dist_coeffs n)]
             in case solvePnP cv (objectPoints s) (corners m)
                       (camera_matrix n) (dist_coeffs n) of
                  Inl e \<Rightarrow> (pre, Inl e)
                | Inr (ok, rvec, tvec) \<Rightarrow>
                    (let evs = pre @ [Log (LogInfo ''drawing axis''), CallDrawAxis rvec tvec s]
                     in case drawAxis cv img (camera_matrix n) (dist_coeffs n) rvec tvec s of
                          Inl e \<Rightarrow> (evs, Inl e)
                        | Inr img' \<Rightarrow> (evs, Inr img')))
          else ([], Inr img))"

fun marker_loop ::
  "('pix, 'img) opencv \<Rightarrow> node \<Rightarrow> marker list \<Rightarrow> 'img \<Rightarrow> 'img event list \<times> (failure + 'img)" where
  "marker_loop cv n [] img = ([], Inr img)"
| "marker_loop cv n (m # ms) img =
     (case process_marker cv n img m of
        (evs, Inl e) \<Rightarrow> (evs, Inl e)
      | (evs, Inr img') \<Rightarrow>
          (case marker_loop cv n ms img' of (evs', r) \<Rightarrow> (evs @ evs', r)))"

text \<open>
  The handler of the frame callback catches \<open>cv_bridge::Exception\<close> and nothing else:
  any other failure leaves the callback.
\<close>

definition handler :: "node \<Rightarrow> 'img event list \<Rightarrow> failure \<Rightarrow> 'img outcome" where
  "handler n evs e =
     (if e = CvBridgeException
      then \<lparr>state = n, trace = evs @ [Log (LogError ''cv_bridge exception'')],
            escaped = None\<rparr>
      else \<lparr>state = n, trace = evs, escaped = Some e\<rparr>)"

definition image_callback ::
  "('pix, 'img) opencv \<Rightarrow> node \<Rightarrow> 'pix image_msg \<Rightarrow> 'img outcome" where
  "image_callback cv n msg =
     (case toCvCopy cv msg BGR8 of
        Inl e \<Rightarrow> handler n [] e
      | Inr img \<Rightarrow>
          (let ids = detectMarkers cv img (dictionary n)
           in case (if length ids > 0
                    then (case marker_loop cv n ids (drawDetectedMarkers cv img ids) of
                            (evs, r) \<Rightarrow>
                              (Log (LogInfo ''drawing detected markers'')
                                 # CallDrawDetectedMarkers ids # evs, r))
                    else ([], Inr img)) of
                (evs, Inl e) \<Rightarrow> handler n evs e
              | (evs, Inr img') \<Rightarrow>
                  \<lparr>state = n,
                   trace = evs @ [Publish \<lparr>cv_header = header msg, cv_encoding = BGR8,
                                           cv_image = img'\<rparr>],
                   escaped = None\<rparr>))"

text \<open>
  \<open>rclcpp::spin\<close> delivers the incoming messages to the two callbacks, one at a time.
  A failure that leaves a callback leaves \<open>spin\<close> and \<open>main\<close> as well: the messages
  after it are not delivered.
\<close>

datatype 'pix message = ImageMsg "'pix image_msg" | DistanceMsg distance_sensor

fun spin :: "('pix, 'img) opencv \<Rightarrow> node \<Rightarrow> 'pix message list \<Rightarrow> 'img outcome" where
  "spin cv n [] = \<lparr>state = n, trace = [], escaped = None\<rparr>"
| "spin cv n (DistanceMsg d # rest) = spin cv (distance_sensor_callback n d) rest"
| "spin cv n (ImageMsg msg # rest) =
     (let r = image_callback cv n msg
      in case escaped r of
           Some e \<Rightarrow> r
         | None \<Rightarrow> (let r' = spin cv (state r) rest in r'\<lparr>trace := trace r @ trace r'\<rparr>))"

section \<open>Reading a trace\<close>

text \<open>
  The calls of the pose solver, the calls of the axis overlay and the published frames
  of a trace, in the order in which they happened.
\<close>

primrec solve_calls :: "'img event list \<Rightarrow> (point3f list \<times> point2f list) list" where
  "solve_calls [] = []"
| "solve_calls (e # es) =
     (case e of CallSolvePnP objs pts K D \<Rightarrow> (objs, pts) # solve_calls es
              | _ \<Rightarrow> solve_calls es)"

primrec axis_calls :: "'img event list \<Rightarrow> (vec3d \<times> vec3d \<times> fval) list" where
  "axis_calls [] = []"
| "axis_calls (e # es) =
     (case e of CallDrawAxis rvec tvec len \<Rightarrow> (rvec, tvec, len) # axis_calls es
              | _ \<Rightarrow> axis_calls es)"

primrec published :: "'img event list \<Rightarrow> 'img cv_image list" where
  "published [] = []"
| "published (e # es) =
     (case e of Publish out_msg \<Rightarrow> out_msg # published es
              | _ \<Rightarrow> published es)"

text \<open>A marker passes the guard of line 92 when its size is read and is a finite number.\<close>

definition passes_guard :: "node \<Rightarrow> marker \<Rightarrow> bool" where
  "passes_guard n m =
     (case marker_size n m of None \<Rightarrow> False | Some s \<Rightarrow> \<not> isnan s \<and> \<not> isinf s)"

text \<open>
  The library calls made for a marker return: the focal length is read, and if the marker
  passes the guard, the pose solver returns on its object points and corners (with either
  status flag) and the axis overlay returns on every image and pose.
\<close>

definition calls_return :: "('pix, 'img) opencv \<Rightarrow> node \<Rightarrow> marker \<Rightarrow> bool" where
  "calls_return cv n m =
     (\<exists>s. marker_size n m = Some s
        \<and> (\<not> isnan s \<and> \<not> isinf s \<longrightarrow>
             (\<exists>res. solvePnP cv (objectPoints s) (corners m) (camera_matrix n) (dist_coeffs n)
                      = Inr res)
           \<and> (\<forall>img rvec tvec. \<exists>img'.
                 drawAxis cv img (camera_matrix n) (dist_coeffs n) rvec tvec s = Inr img')))"

text \<open>
  The altitude that a reader expects after a sequence of messages: the distance of the
  last altitude sample, or the value \<open>d\<close> held before when there was no sample.
\<close>

primrec last_distance :: "fval \<Rightarrow> 'pix message list \<Rightarrow> fval" where
  "last_distance d [] = d"
| "last_distance d (msg # rest) =
     (case msg of
        DistanceMsg sample \<Rightarrow> last_distance (current_distance sample) rest
      | ImageMsg _ \<Rightarrow> last_distance d rest)"

section \<open>A simulated library and some scenes\<close>

text \<open>
  To run the callbacks on concrete frames, the library is instantiated by a simulation. A
  raw frame is the list of the markers visible in it; a decoded image is that list and the
  number of overlays drawn so far. Decoding raises \<open>cv_bridge::Exception\<close> on an encoding
  it does not know. The simulated pose solver raises \<open>cv::Exception\<close> when the object
  points coincide, reports failure by its flag when two image corners coincide, and
  succeeds otherwise. The simulated axis overlay requires a positive axis length, as the
  assertion at the head of the library's \<open>drawAxis\<close> does, and raises \<open>cv::Exception\<close>
  otherwise.
\<close>

type_synonym sim_img = "marker list \<times> nat"

definition sim_toCvCopy :: "marker list image_msg \<Rightarrow> string \<Rightarrow> failure + sim_img" where
  "sim_toCvCopy msg enc =
     (if encoding msg = ''bgr8'' \<or> encoding msg = ''rgb8'' \<or> encoding msg = ''mono8''
      then Inr (data msg, 0) else Inl CvBridgeException)"

definition sim_solvePnP ::
  "point3f list \<Rightarrow> point2f list \<Rightarrow> mat \<Rightarrow> mat \<Rightarrow> failure + (bool \<times> vec3d \<times> vec3d)" where
  "sim_solvePnP objs pts K D =
     (if \<not> distinct objs then Inl CvException
      else if \<not> distinct pts then Inr (False, (Fin 0, Fin 0, Fin 0), (Fin 0, Fin 0, Fin 0))
      else Inr (True, (Fin 0, Fin 0, Fin 0), (Fin 0, Fin 0, Fin 1)))"

definition sim_drawAxis ::
  "sim_img \<Rightarrow> mat \<Rightarrow> mat \<Rightarrow> vec3d \<Rightarrow> vec3d \<Rightarrow> fval \<Rightarrow> failure + sim_img" where
  "sim_drawAxis img K D rvec tvec len =
     (case len of
        Fin l \<Rightarrow> (if 0 < l then Inr (fst img, Suc (snd img)) else Inl CvException)
      | _ \<Rightarrow> Inl CvException)"

definition sim_cv :: "(marker list, sim_img) opencv" where
  "sim_cv = \<lparr>toCvCopy = sim_toCvCopy,
            detectMarkers = (\<lambda>img d. fst img),
            drawDetectedMarkers = (\<lambda>img ms. (fst img, snd img + length ms)),
            solvePnP = sim_solvePnP,
            drawAxis = sim_drawAxis\<rparr>"

text \<open>
  Camera matrices with the focal length \<open>fx\<close> in entry (0, 0) and a different focal
  length in entry (1, 1): the calibrated camera, and cameras with \<open>fx\<close> zero, one and
  \<open>2 ^ 20\<close>.
\<close>

definition K_cam :: mat where
  "K_cam = [[Fin 500, Fin 0, Fin 320], [Fin 0, Fin 480, Fin 240], [Fin 0, Fin 0, Fin 1]]"

definition K_zero :: mat where
  "K_zero = [[Fin 0, Fin 0, Fin 320], [Fin 0, Fin 480, Fin 240], [Fin 0, Fin 0, Fin 1]]"

definition K_one :: mat where
  "K_one = [[Fin 1, Fin 0, Fin 320], [Fin 0, Fin 480, Fin 240], [Fin 0, Fin 0, Fin 1]]"

definition K_far :: mat where
  "K_far = [[Fin 1048576, Fin 0, Fin 320], [Fin 0, Fin 480, Fin 240], [Fin 0, Fin 0, Fin 1]]"

text \<open>The \<open>float\<close> nearest to one tenth.\<close>

definition tenth :: real where
  "tenth = 13421773 / 134217728"

definition D_cam :: mat where
  "D_cam = [[Fin 0, Fin 0, Fin 0, Fin 0, Fin 0]]"

text \<open>A node constructed from a calibration file with the two matrices, after one altitude sample.\<close>

definition tracker :: "mat \<Rightarrow> mat \<Rightarrow> fval \<Rightarrow> node" where
  "tracker K D a =
     distance_sensor_callback
       (fst (ArucoTrackerNode
               (Some \<lparr>file_camera_matrix = K, file_distortion_coefficients = D\<rparr>)))
       \<lparr>current_distance = a\<rparr>"

text \<open>
  Four markers: a square of 50 pixels, a marker whose four corners coincide, a marker
  125 pixels wide whose two bottom corners coincide, and a square of one pixel.
\<close>

definition square_marker :: marker where
  "square_marker = \<lparr>marker_id = 7, corner0 = (100, 100), corner1 = (150, 100),
                    corner2 = (150, 150), corner3 = (100, 150)\<rparr>"



definition unit_marker :: marker where
  "unit_marker = \<lparr>marker_id = 9, corner0 = (30, 40), corner1 = (31, 40),
                  corner2 = (31, 41), corner3 = (30, 41)\<rparr>"

definition hdr :: header where
  "hdr = \<lparr>stamp_sec = 17, stamp_nanosec = 5, frame_id = ''camera''\<rparr>"

definition frame :: "marker list \<Rightarrow> marker list image_msg" where
  "frame ms = \<lparr>header = hdr, encoding = ''rgb8'', data = ms\<rparr>"

section \<open>Facts about rounding\<close>

lemma wellformed_binary: "wellformed binary32" "wellformed binary64"
  by (simp_all add: wellformed_def binary32_def binary64_def)

lemma round_even_of_int: "round_even (of_int z) = z"
  by (simp add: round_even_def)

lemma round_even_ge: "of_int z \<le> q \<Longrightarrow> z \<le> round_even q"
proof -
  assume "of_int z \<le> q"
  then have "z \<le> \<lfloor>q\<rfloor>" by (simp add: le_floor_iff)
  then show ?thesis by (simp add: round_even_def Let_def)
qed

lemma round_even_le: "q \<le> of_int z \<Longrightarrow> round_even q \<le> z"
proof (cases "q = of_int z")
  case True
  then show ?thesis by (simp add: round_even_of_int)
next
  case False
  assume "q \<le> of_int z"
  then have "q < of_int z" using False by simp
  then have "\<lfloor>q\<rfloor> < z" by (simp add: floor_less_iff)
  then show ?thesis by (simp add: round_even_def Let_def)
qed

lemma round_even_small: "\<bar>q\<bar> \<le> 1 / 2 \<Longrightarrow> round_even q = 0"
proof -
  assume q: "\<bar>q\<bar> \<le> 1 / 2"
  show ?thesis
  proof (cases "0 \<le> q")
    case True
    then have "\<lfloor>q\<rfloor> = 0" using q by (simp add: floor_eq_iff)
    then show ?thesis using q True by (simp add: round_even_def)
  next
    case False
    then have f: "\<lfloor>q\<rfloor> = - 1" using q by (simp add: floor_eq_iff) 
    then show ?thesis using q False by (auto simp: round_even_def Let_def)
  qed
qed

lemma round_even_minus: "round_even (- q) = - round_even q"
proof (cases "q = of_int \<lfloor>q\<rfloor>")
  case True
  then obtain z where "q = of_int z" by metis
  then show ?thesis
    by (metis of_int_minus round_even_of_int)
next
  case False
  then have lt: "of_int \<lfloor>q\<rfloor> < q" by linarith
  have "\<lfloor>- q\<rfloor> = - \<lfloor>q\<rfloor> - 1"
    using lt by (simp add: floor_eq_iff) linarith
  then show ?thesis
    using lt by (auto simp: round_even_def Let_def)
qed

lemma find_exponent_spec:
  "e - int k \<le> find_exponent k e r \<and> find_exponent k e r \<le> e
   \<and> (e - int k < find_exponent k e r \<longrightarrow> 2 powi (find_exponent k e r) \<le> r)
   \<and> (find_exponent k e r < e \<longrightarrow> r < 2 powi (find_exponent k e r + 1))"
proof (induction k arbitrary: e)
  case 0
  show ?case by simp
next
  case (Suc k)
  show ?case
  proof (cases "2 powi e \<le> r")
    case True
    then show ?thesis by simp
  next
    case False
    let ?x = "find_exponent k (e - 1) r"
    have x: "find_exponent (Suc k) e r = ?x"
      using False by simp
    have ih: "e - 1 - int k \<le> ?x" "?x \<le> e - 1"
      "e - 1 - int k < ?x \<longrightarrow> 2 powi ?x \<le> r"
      "?x < e - 1 \<longrightarrow> r < 2 powi (?x + 1)"
      using Suc.IH [of "e - 1"] by simp_all
    have "r < 2 powi (?x + 1)"
    proof (cases "?x < e - 1")
      case True
      then show ?thesis using ih(4) by simp
    next
      case False
      then have "?x + 1 = e" using ih(2) by simp
      then show ?thesis using \<open>\<not> 2 powi e \<le> r\<close> by simp
    qed
    then show ?thesis
      unfolding x using ih by simp
  qed
qed

lemma exponent_range:
  "wellformed fmt \<Longrightarrow> emin fmt \<le> exponent fmt r \<and> exponent fmt r \<le> emax fmt"
  using find_exponent_spec [of "emax fmt" "nat (emax fmt - emin fmt)" "\<bar>r\<bar>"]
  by (simp add: exponent_def wellformed_def)

lemma exponent_lower:
  "wellformed fmt \<Longrightarrow> emin fmt < exponent fmt r \<Longrightarrow> 2 powi (exponent fmt r) \<le> \<bar>r\<bar>"
  using find_exponent_spec [of "emax fmt" "nat (emax fmt - emin fmt)" "\<bar>r\<bar>"]
  by (simp add: exponent_def wellformed_def)

lemma exponent_upper:
  "exponent fmt r < emax fmt \<Longrightarrow> \<bar>r\<bar> < 2 powi (exponent fmt r + 1)"
  using find_exponent_spec [of "emax fmt" "nat (emax fmt - emin fmt)" "\<bar>r\<bar>"]
  by (simp add: exponent_def)

lemma exponent_eq:
  assumes "wellformed fmt" and "emin fmt \<le> a" and "a \<le> emax fmt"
    and "2 powi a \<le> \<bar>r\<bar>" and "\<bar>r\<bar> < 2 powi (a + 1)"
  shows "exponent fmt r = a"
proof (rule ccontr)
  assume ne: "exponent fmt r \<noteq> a"
  show False
  proof (cases "exponent fmt r < a")
    case True
    then have "\<bar>r\<bar> < 2 powi (exponent fmt r + 1)"
      using exponent_upper [of fmt r] assms(3) by simp
    also have "\<dots> \<le> 2 powi a"
      using True by (intro power_int_increasing) simp_all
    finally show False using assms(4) by simp
  next
    case False
    then have gt: "a < exponent fmt r" using ne by simp
    then have "2 powi (exponent fmt r) \<le> \<bar>r\<bar>"
      using exponent_lower [of fmt r] assms(1,2) by simp
    moreover have "2 powi (a + 1) \<le> (2 :: real) powi (exponent fmt r)"
      using gt by (intro power_int_increasing) simp_all
    ultimately show False using assms(5) by simp
  qed
qed

lemma exponent_minus: "exponent fmt (- r) = exponent fmt r"
  by (simp add: exponent_def)

lemma ulp_pos: "0 < ulp fmt r"
  by (simp add: ulp_def)

lemma ulp_minus: "ulp fmt (- r) = ulp fmt r"
  by (simp add: ulp_def exponent_minus)

lemma pow2_less_iff: "(2 :: real) powi a < 2 powi b \<longleftrightarrow> a < b"
proof
  assume lt: "(2 :: real) powi a < 2 powi b"
  show "a < b"
  proof (rule ccontr)
    assume "\<not> a < b"
    then have "(2 :: real) powi b \<le> 2 powi a"
      by (intro power_int_increasing) simp_all
    then show False using lt by simp
  qed
next
  assume "a < b"
  then show "(2 :: real) powi a < 2 powi b"
    by (intro power_int_strict_increasing) simp_all
qed

lemma pow2_le_iff: "(2 :: real) powi a \<le> 2 powi b \<longleftrightarrow> a \<le> b"
  using pow2_less_iff [of b a] by (simp add: not_less [symmetric])

lemma pow2_split: "b = a + int n \<Longrightarrow> (2 :: real) powi b = 2 ^ n * 2 powi a"
  by (simp add: power_int_add)

lemma of_int_pow2_le: "2 ^ n \<le> z \<Longrightarrow> (2 :: real) ^ n \<le> of_int z"
  by (metis of_int_le_iff of_int_numeral of_int_power)

lemma of_int_le_pow2: "z \<le> 2 ^ n \<Longrightarrow> of_int z \<le> (2 :: real) ^ n"
  by (metis of_int_le_iff of_int_numeral of_int_power)

lemma pow2_nat: "0 \<le> k \<Longrightarrow> (2 :: real) powi k = of_int (2 ^ nat k)"
  by (simp add: power_int_nonneg_exp)

lemma rnd_minus: "rnd fmt (- r) = fneg (rnd fmt r)"
  by (simp add: rnd_def ulp_minus round_even_minus Let_def)

lemma rnd_bounded: "rnd fmt r = Fin v \<Longrightarrow> \<bar>v\<bar> < 2 powi (emax fmt + 1)"
  by (auto simp: rnd_def Let_def split: if_splits)

lemma rnd_not_NaN: "rnd fmt r \<noteq> NaN"
  by (simp add: rnd_def Let_def)

lemma rnd_exact:
  assumes wf: "wellformed fmt"
    and r: "r = of_int m * 2 powi k"
    and m: "\<bar>m\<bar> < 2 ^ precision fmt"
    and k: "emin fmt - int (precision fmt) + 1 \<le> k"
    and fin: "\<bar>r\<bar> < 2 powi (emax fmt + 1)"
  shows "rnd fmt r = Fin r"
proof -
  let ?e = "exponent fmt r"
  let ?j = "?e - int (precision fmt) + 1"
  have jk: "?j \<le> k"
  proof (cases "emin fmt < ?e")
    case False
    then have "?e = emin fmt" using exponent_range [OF wf, of r] by simp
    then show ?thesis using k by simp
  next
    case True
    have "2 powi ?e \<le> \<bar>r\<bar>"
      using exponent_lower [OF wf True] .
    also have "\<bar>r\<bar> = of_int \<bar>m\<bar> * 2 powi k"
      by (simp add: r abs_mult)
    also have "\<dots> < 2 ^ precision fmt * 2 powi k"
    proof -
      have "(of_int \<bar>m\<bar> :: real) < of_int (2 ^ precision fmt)"
        using m by (simp only: of_int_less_iff)
      then show ?thesis by simp
    qed
    also have "\<dots> = 2 powi (int (precision fmt) + k)"
      by (simp add: power_int_add)
    finally have "?e < int (precision fmt) + k"
      by (simp add: pow2_less_iff)
    then show ?thesis by simp
  qed
  define u where "u = ulp fmt r"
  define N where "N = nat (k - ?j)"
  have u: "u = 2 powi ?j" "0 < u"
    by (simp_all add: u_def ulp_def)
  have "2 powi k = (2 :: real) powi (k - ?j) * 2 powi ?j"
    by (simp flip: power_int_add)
  also have "(2 :: real) powi (k - ?j) = 2 ^ N"
    using jk by (simp add: power_int_nonneg_exp N_def)
  finally have split: "2 powi k = 2 ^ N * u"
    by (simp add: u)
  have "r / u = of_int m * 2 ^ N"
    using u(2) by (simp add: r split)
  then have "r / u = of_int (m * 2 ^ N)"
    by simp
  then have "round_even (r / u) = m * 2 ^ N"
    by (simp only: round_even_of_int)
  then have "of_int (round_even (r / u)) * u = r"
    by (simp add: r split)
  then show ?thesis
    using fin by (simp add: rnd_def Let_def u_def)
qed

lemma rnd_representable: "wellformed fmt \<Longrightarrow> representable fmt r \<Longrightarrow> rnd fmt r = Fin r"
  unfolding representable_def using rnd_exact by blast

lemma rnd_value:
  "rnd fmt r = Inf \<or> rnd fmt r = Fin (of_int (round_even (r / ulp fmt r)) * ulp fmt r)"
  by (simp add: rnd_def Let_def)


lemma rnd_underflow:
  assumes wf: "wellformed fmt" and small: "\<bar>r\<bar> \<le> 2 powi (emin fmt - int (precision fmt))"
  shows "rnd fmt r = Fin 0"
proof -
  have e: "exponent fmt r = emin fmt"
  proof (rule ccontr)
    assume "exponent fmt r \<noteq> emin fmt"
    then have gt: "emin fmt < exponent fmt r"
      using exponent_range [OF wf, of r] by simp
    then have "2 powi (exponent fmt r) \<le> \<bar>r\<bar>"
      using exponent_lower [OF wf] by simp
    then have "(2 :: real) powi (exponent fmt r) \<le> 2 powi (emin fmt - int (precision fmt))"
      using small by simp
    then show False using gt by (simp add: pow2_le_iff)
  qed
  have "2 powi (emin fmt - int (precision fmt)) = ulp fmt r / 2"
    by (simp add: ulp_def e power_int_diff power_int_add)
  then have "\<bar>r / ulp fmt r\<bar> \<le> 1 / 2"
    using small ulp_pos [of fmt r] by (simp add: field_simps abs_mult)
  then have "round_even (r / ulp fmt r) = 0"
    by (rule round_even_small)
  then show ?thesis
    by (simp add: rnd_def Let_def not_le)
qed

lemma rnd_le_pow:
  assumes wf: "wellformed fmt" and r: "0 \<le> r" "r \<le> 2 powi b"
    and b: "emin fmt \<le> b" "b \<le> emax fmt"
  shows "\<exists>v. rnd fmt r = Fin v \<and> 0 \<le> v \<and> v \<le> 2 powi b"
proof -
  let ?e = "exponent fmt r"
  let ?j = "?e - int (precision fmt) + 1"
  define u where "u = ulp fmt r"
  have u: "u = 2 powi ?j" "0 < u"
    by (simp_all add: u_def ulp_def)
  have eb: "?e \<le> b"
  proof (cases "emin fmt < ?e")
    case False
    then show ?thesis using exponent_range [OF wf, of r] b by simp
  next
    case True
    then have "2 powi ?e \<le> \<bar>r\<bar>" using exponent_lower [OF wf] by simp
    then have "(2 :: real) powi ?e \<le> 2 powi b" using r by simp
    then show ?thesis by (simp add: pow2_le_iff)
  qed
  define N where "N = nat (b - ?j)"
  have "0 < precision fmt" using wf by (simp add: wellformed_def)
  then have "b = ?j + int N"
    using eb by (simp add: N_def)
  then have split: "2 powi b = 2 ^ N * u"
    unfolding u(1) by (rule pow2_split)
  have "r \<le> 2 ^ N * u"
    using r(2) unfolding split .
  then have "r / u \<le> 2 ^ N"
    using u(2) by (simp add: pos_divide_le_eq)
  then have "r / u \<le> of_int (2 ^ N)" by simp
  then have hi: "round_even (r / u) \<le> 2 ^ N"
    by (rule round_even_le)
  have "of_int 0 \<le> r / u" using r(1) u(2) by simp
  then have lo: "0 \<le> round_even (r / u)"
    by (rule round_even_ge)
  define v where "v = of_int (round_even (r / u)) * u"
  have v0: "0 \<le> v" using lo u(2) by (simp add: v_def)
  have "of_int (round_even (r / u)) \<le> (2 :: real) ^ N"
    using hi by (rule of_int_le_pow2)
  then have "of_int (round_even (r / u)) * u \<le> 2 ^ N * u"
    using u(2) by (simp only: mult_le_cancel_right_pos)
  then have vb: "v \<le> 2 powi b"
    unfolding split v_def .
  have "(2 :: real) powi b < 2 powi (emax fmt + 1)"
    using b(2) by (simp add: pow2_less_iff)
  then have "\<not> 2 powi (emax fmt + 1) \<le> \<bar>v\<bar>"
    using v0 vb by simp
  then have "rnd fmt r = Fin v"
    by (simp add: rnd_def Let_def v_def u_def)
  then show ?thesis using v0 vb by blast
qed

lemma rnd_overflow_pos:
  assumes wf: "wellformed fmt" and big: "2 powi (emax fmt + 1) \<le> r"
  shows "rnd fmt r = Inf"
proof -
  have pos: "0 < r"
    using big by (smt (verit) zero_less_power_int)
  have e: "exponent fmt r = emax fmt"
  proof (rule ccontr)
    assume "exponent fmt r \<noteq> emax fmt"
    then have lt: "exponent fmt r < emax fmt"
      using exponent_range [OF wf, of r] by simp
    then have "\<bar>r\<bar> < 2 powi (exponent fmt r + 1)"
      by (rule exponent_upper)
    then have "(2 :: real) powi (emax fmt + 1) < 2 powi (exponent fmt r + 1)"
      using big pos by simp
    then show False using lt by (simp add: pow2_less_iff)
  qed
  define u where "u = ulp fmt r"
  have u: "u = 2 powi (emax fmt - int (precision fmt) + 1)" "0 < u"
    by (simp_all add: u_def ulp_def e)
  have "emax fmt + 1 = (emax fmt - int (precision fmt) + 1) + int (precision fmt)"
    by simp
  then have split: "2 powi (emax fmt + 1) = 2 ^ precision fmt * u"
    unfolding u(1) by (rule pow2_split)
  have "2 ^ precision fmt * u \<le> r"
    using big unfolding split .
  then have "2 ^ precision fmt \<le> r / u"
    using u(2) by (simp add: pos_le_divide_eq)
  then have "of_int (2 ^ precision fmt) \<le> r / u" by simp
  then have "2 ^ precision fmt \<le> round_even (r / u)"
    by (rule round_even_ge)
  then have "(2 :: real) ^ precision fmt \<le> of_int (round_even (r / u))"
    by (rule of_int_pow2_le)
  then have "2 ^ precision fmt * u \<le> of_int (round_even (r / u)) * u"
    using u(2) by (simp only: mult_le_cancel_right_pos)
  then have "2 powi (emax fmt + 1) \<le> of_int (round_even (r / u)) * u"
    unfolding split .
  then show ?thesis
    by (simp add: rnd_def Let_def u_def)
qed

lemma rnd_overflow:
  assumes wf: "wellformed fmt" and big: "2 powi (emax fmt + 1) \<le> \<bar>r\<bar>"
  shows "rnd fmt r = Inf"
proof (cases "0 \<le> r")
  case True
  then show ?thesis using rnd_overflow_pos [OF wf, of r] big by simp
next
  case False
  then have "rnd fmt (- r) = Inf" using rnd_overflow_pos [OF wf, of "- r"] big by simp
  then show ?thesis by (cases "rnd fmt r") (simp_all add: rnd_minus)
qed


lemma rnd_is_representable:
  assumes wf: "wellformed fmt" and v: "rnd fmt r = Fin v"
  shows "representable fmt v"
proof -
  let ?e = "exponent fmt r"
  let ?j = "?e - int (precision fmt) + 1"
  define u where "u = ulp fmt r"
  define z where "z = round_even (r / u)"
  have u: "u = 2 powi ?j" "0 < u"
    by (simp_all add: u_def ulp_def)
  have vz: "v = of_int z * u" and fin: "\<bar>v\<bar> < 2 powi (emax fmt + 1)"
    using v by (auto simp: rnd_def Let_def z_def u_def split: if_splits)
  have j: "emin fmt - int (precision fmt) + 1 \<le> ?j"
    using exponent_range [OF wf, of r] by simp
  have p: "0 < precision fmt" using wf by (simp add: wellformed_def)
  have zb: "\<bar>z\<bar> \<le> 2 ^ precision fmt"
  proof (cases "?e < emax fmt")
    case True
    have "?e + 1 = ?j + int (precision fmt)" by simp
    then have split: "2 powi (?e + 1) = 2 ^ precision fmt * u"
      unfolding u(1) by (rule pow2_split)
    have "\<bar>r\<bar> < 2 ^ precision fmt * u"
      using exponent_upper [OF True] unfolding split .
    then have "\<bar>r\<bar> / u < 2 ^ precision fmt"
      using u(2) by (simp add: pos_divide_less_eq)
    moreover have "\<bar>r / u\<bar> = \<bar>r\<bar> / u"
      using u(2) by simp
    ultimately have "r / u < 2 ^ precision fmt" "- (2 ^ precision fmt) < r / u"
      by linarith+
    then have "r / u \<le> of_int (2 ^ precision fmt)" "of_int (- (2 ^ precision fmt)) \<le> r / u"
      by simp_all
    then have "z \<le> 2 ^ precision fmt" "- (2 ^ precision fmt) \<le> z"
      unfolding z_def using round_even_le round_even_ge by blast+
    then show ?thesis by simp
  next
    case False
    then have e: "?e = emax fmt" using exponent_range [OF wf, of r] by simp
    have "emax fmt + 1 = ?j + int (precision fmt)" by (simp add: e)
    then have split: "2 powi (emax fmt + 1) = 2 ^ precision fmt * u"
      unfolding u(1) by (rule pow2_split)
    have "\<bar>of_int z\<bar> * u < 2 ^ precision fmt * u"
      using fin u(2) unfolding split vz by (simp add: abs_mult)
    then have "\<bar>of_int z :: real\<bar> < 2 ^ precision fmt"
      using u(2) by (simp only: mult_less_cancel_right_pos)
    then have "\<bar>z\<bar> < 2 ^ precision fmt"
      by (metis of_int_abs of_int_less_iff of_int_numeral of_int_power)
    then show ?thesis by simp
  qed
  show ?thesis
  proof (cases "\<bar>z\<bar> < 2 ^ precision fmt")
    case True
    then show ?thesis
      unfolding representable_def using vz u(1) j fin by blast
  next
    case False
    then have "\<bar>z\<bar> = 2 ^ precision fmt" using zb by simp
    then have "z = 2 ^ precision fmt \<or> z = - (2 ^ precision fmt)"
      by (simp add: abs_if split: if_splits)
    then obtain s :: int where s: "\<bar>s\<bar> = 1" "z = s * 2 ^ precision fmt"
      by (metis abs_minus abs_one minus_mult_left mult_1)
    have "?j + int (precision fmt) = ?j + int (precision fmt)" by simp
    then have "2 powi (?j + int (precision fmt)) = 2 ^ precision fmt * u"
      unfolding u(1) by (rule pow2_split)
    then have "v = of_int s * 2 powi (?j + int (precision fmt))"
      by (simp add: vz s(2))
    moreover have "\<bar>s\<bar> < 2 ^ precision fmt"
      using s(1) p by (metis one_less_numeral_iff one_less_power semiring_norm(76))
    moreover have "emin fmt - int (precision fmt) + 1 \<le> ?j + int (precision fmt)"
      using j by simp
    ultimately show ?thesis
      unfolding representable_def using fin by blast
  qed
qed

lemma representable_0: "representable fmt 0"
  unfolding representable_def by (intro exI [of _ 0] exI [of _ "emin fmt - int (precision fmt) + 1"]) simp

lemma representable_minus: "representable fmt r \<Longrightarrow> representable fmt (- r)"
proof -
  assume "representable fmt r"
  then obtain m k where "r = of_int m * 2 powi k" "\<bar>m\<bar> < 2 ^ precision fmt"
    "emin fmt - int (precision fmt) + 1 \<le> k" "\<bar>r\<bar> < 2 powi (emax fmt + 1)"
    unfolding representable_def by blast
  then show ?thesis
    unfolding representable_def by (intro exI [of _ "- m"] exI [of _ k]) simp
qed


lemma representable_half:
  assumes rep: "representable binary32 r" and big: "2 powi (- 125) \<le> \<bar>r\<bar>"
  shows "representable binary32 (r / 2)"
proof -
  obtain m k where mk: "r = of_int m * 2 powi k" "\<bar>m\<bar> < 2 ^ 24" "- 149 \<le> k"
    "\<bar>r\<bar> < 2 powi 128"
    using rep unfolding representable_def binary32_def by auto
  have "\<bar>r\<bar> = of_int \<bar>m\<bar> * 2 powi k"
    by (simp add: mk(1) abs_mult)
  also have "\<dots> < 2 ^ 24 * 2 powi k"
  proof -
    have "(of_int \<bar>m\<bar> :: real) < of_int (2 ^ 24)"
      using mk(2) by (simp only: of_int_less_iff)
    then show ?thesis by simp
  qed
  also have "\<dots> = 2 powi (k + 24)"
    using pow2_split [of "k + 24" k 24] by simp
  finally have "\<bar>r\<bar> < 2 powi (k + 24)" .
  with big have "(2 :: real) powi (- 125) < 2 powi (k + 24)"
    by (rule le_less_trans)
  then have "- 125 < k + 24"
    by (simp only: pow2_less_iff)
  then have k: "- 148 \<le> k" by simp
  have "r / 2 = of_int m * 2 powi (k - 1)"
    by (simp add: mk(1) power_int_diff)
  moreover have "\<bar>r / 2\<bar> < 2 powi 128"
    using mk(4) by simp
  ultimately show ?thesis
    unfolding representable_def binary32_def using mk(2) k
    by (intro exI [of _ m] exI [of _ "k - 1"]) simp
qed

lemma rnd_eval:
  assumes wf: "wellformed fmt"
    and e: "emin fmt \<le> e" "e \<le> emax fmt"
    and r: "2 powi e \<le> \<bar>r\<bar>" "\<bar>r\<bar> < 2 powi (e + 1)"
    and z: "round_even (r / 2 powi (e - int (precision fmt) + 1)) = z"
    and fin: "\<bar>of_int z * 2 powi (e - int (precision fmt) + 1)\<bar> < (2 :: real) powi (emax fmt + 1)"
  shows "rnd fmt r = Fin (of_int z * 2 powi (e - int (precision fmt) + 1))"
proof -
  have "exponent fmt r = e"
    using exponent_eq [OF wf e r] .
  then show ?thesis
    using z fin by (simp add: rnd_def ulp_def Let_def)
qed


lemma rnd_0: "wellformed fmt \<Longrightarrow> rnd fmt 0 = Fin 0"
  using rnd_underflow [of fmt 0] by simp

lemma rnd32_int: "\<bar>z\<bar> < 2 ^ 24 \<Longrightarrow> rnd binary32 (of_int z) = Fin (of_int z)"
proof -
  assume z: "\<bar>z\<bar> < 2 ^ 24"
  then have "\<bar>real_of_int z\<bar> < 2 ^ 24"
    by (metis of_int_abs of_int_less_iff of_int_numeral of_int_power)
  then have "\<bar>real_of_int z\<bar> < 2 powi (emax binary32 + 1)"
    by (simp add: binary32_def)
  then show ?thesis
    using rnd_exact [OF wellformed_binary(1), of "of_int z" z 0] z
    by (simp add: binary32_def)
qed

lemma rnd64_int: "\<bar>z\<bar> < 2 ^ 53 \<Longrightarrow> rnd binary64 (of_int z) = Fin (of_int z)"
proof -
  assume z: "\<bar>z\<bar> < 2 ^ 53"
  then have "\<bar>real_of_int z\<bar> < 2 ^ 53"
    by (metis of_int_abs of_int_less_iff of_int_numeral of_int_power)
  then have "\<bar>real_of_int z\<bar> < 2 powi (emax binary64 + 1)"
    by (simp add: binary64_def)
  then show ?thesis
    using rnd_exact [OF wellformed_binary(2), of "of_int z" z 0] z
    by (simp add: binary64_def)
qed

lemma half_size:
  assumes "\<bar>r\<bar> < 2 powi 128"
  shows "\<exists>h. rnd binary32 (r / 2) = Fin h \<and> (0 \<le> r \<longrightarrow> 0 \<le> h) \<and> (r \<le> 0 \<longrightarrow> h \<le> 0)"
proof -
  have le: "\<exists>v. rnd binary32 x = Fin v \<and> 0 \<le> v" if "0 \<le> x" "x \<le> 2 powi 127" for x
    using rnd_le_pow [OF wellformed_binary(1) that, of] by (auto simp: binary32_def)
  have half: "\<bar>r / 2\<bar> \<le> 2 powi 127"
    using assms by simp
  show ?thesis
  proof (cases "0 \<le> r")
    case True
    then obtain v where v: "rnd binary32 (r / 2) = Fin v" "0 \<le> v"
      using le [of "r / 2"] half by auto
    have "r \<le> 0 \<longrightarrow> v \<le> 0"
      using True v rnd_0 [OF wellformed_binary(1)] by auto
    then show ?thesis using v by blast
  next
    case False
    then obtain v where v: "rnd binary32 (- (r / 2)) = Fin v" "0 \<le> v"
      using le [of "- (r / 2)"] half by auto
    then have "rnd binary32 (r / 2) = Fin (- v)"
      by (cases "rnd binary32 (r / 2)") (simp_all add: rnd_minus)
    then show ?thesis using False v by auto
  qed
qed

lemma half_size_exact:
  assumes "representable binary32 r" and "r = 0 \<or> 2 powi (- 125) \<le> \<bar>r\<bar>"
  shows "rnd binary32 (r / 2) = Fin (r / 2)"
proof (cases "r = 0")
  case True
  then show ?thesis using rnd_0 [OF wellformed_binary(1)] by simp
next
  case False
  then have "representable binary32 (r / 2)"
    using representable_half assms by blast
  then show ?thesis
    by (rule rnd_representable [OF wellformed_binary(1)])
qed

lemma fcast_kinds:
  "isnan (fcast binary32 x) \<or> isinf (fcast binary32 x)
   \<or> (\<exists>r. fcast binary32 x = Fin r \<and> representable binary32 r)"
proof (cases x)
  case (Fin y)
  show ?thesis
  proof (cases "rnd binary32 y")
    case (Fin v)
    then show ?thesis
      using rnd_is_representable [OF wellformed_binary(1) Fin] \<open>x = Fin y\<close> by simp
  qed (simp_all add: \<open>x = Fin y\<close>)
qed simp_all

lemma marker_size_kinds:
  "marker_size n m = Some s \<Longrightarrow>
   isnan s \<or> isinf s \<or> (\<exists>r. s = Fin r \<and> representable binary32 r)"
  using fcast_kinds by (auto simp: marker_size_def split: option.splits)

lemma marker_size_representable:
  "marker_size n m = Some (Fin r) \<Longrightarrow> representable binary32 r"
  using marker_size_kinds [of n m "Fin r"] by simp

lemma representable32_bounded: "representable binary32 r \<Longrightarrow> \<bar>r\<bar> < 2 powi 128"
  by (auto simp: representable_def binary32_def)

lemma pixel_width_whole:
  assumes d: "fst (corner0 m) - fst (corner1 m) = of_int dx"
      "snd (corner0 m) - snd (corner1 m) = of_int dy"
    and root: "sqrt ((of_int dx)\<^sup>2 + (of_int dy)\<^sup>2) = of_int d"
    and small: "\<bar>dx\<bar> < 2 ^ 24" "\<bar>dy\<bar> < 2 ^ 24" "\<bar>d\<bar> < 2 ^ 24"
  shows "pixel_width m = Fin (of_int d)"
proof -
  have sub: "point_sub (corner0 m) (corner1 m) = (Fin (of_int dx), Fin (of_int dy))"
    using rnd32_int [OF small(1)] rnd32_int [OF small(2)] by (simp add: point_sub_def d)
  have square: "\<bar>z * z\<bar> < 2 ^ 48" if "\<bar>z\<bar> < 2 ^ 24" for z :: int
  proof -
    have "\<bar>z\<bar> * \<bar>z\<bar> < 2 ^ 24 * 2 ^ 24"
      using that by (intro mult_strict_mono) simp_all
    then show ?thesis by (simp add: abs_mult)
  qed
  have sq: "rnd binary64 (of_int z * of_int z) = Fin (of_int (z * z))" if "\<bar>z\<bar> < 2 ^ 24"
    for z :: int
    using rnd64_int [of "z * z"] square [OF that] by simp
  have d0: "0 \<le> d"
    using root by (metis of_int_0_le_iff real_sqrt_ge_zero sum_power2_ge_zero)
  have "(of_int dx)\<^sup>2 + (of_int dy)\<^sup>2 = (of_int d :: real)\<^sup>2"
    using root by (metis real_sqrt_eq_iff real_sqrt_abs abs_of_nonneg of_int_0_le_iff d0)
  then have sum: "(of_int (dx * dx) :: real) + of_int (dy * dy) = of_int (d * d)"
    by (simp add: power2_eq_square)
  have sm: "rnd binary64 (of_int (d * d)) = Fin (of_int (d * d))"
    using rnd64_int [of "d * d"] square [OF small(3)] by simp
  have rt: "sqrt (of_int (d * d)) = of_int d"
    using d0 by (simp add: real_sqrt_mult)
  have "\<bar>d\<bar> < 2 ^ 53" using small(3) by simp
  then have fin: "rnd binary64 (of_int d) = Fin (of_int d)" "rnd binary32 (of_int d) = Fin (of_int d)"
    using rnd64_int [of d] rnd32_int [OF small(3)] by simp_all
  have "0 \<le> (of_int (d * d) :: real)"
    by (metis of_int_0_le_iff zero_le_square)
  then have "norm_pt (Fin (of_int dx), Fin (of_int dy)) = Fin (of_int d)"
    using sq [OF small(1)] sq [OF small(2)] sum sm rt fin(1)
    by (simp add: norm_pt_def not_less [symmetric] del: of_int_mult)
  then show ?thesis
    by (simp add: pixel_width_def sub fin)
qed

lemma pixel_width_horizontal:
  assumes c: "corner0 m = (x0, y)" "corner1 m = (x1, y)"
    and d: "x0 - x1 = of_int d" "\<bar>d\<bar> < 2 ^ 24"
  shows "pixel_width m = Fin \<bar>of_int d\<bar>"
proof -
  have "sqrt ((of_int d)\<^sup>2 + (of_int 0)\<^sup>2) = of_int \<bar>d\<bar>"
    by simp
  then have "pixel_width m = Fin (of_int \<bar>d\<bar>)"
    using pixel_width_whole [of m d 0 "\<bar>d\<bar>"] c d by simp
  then show ?thesis by simp
qed



lemma round_even_error: "\<bar>of_int (round_even q) - q\<bar> \<le> 1 / 2"
proof -
  have "of_int \<lfloor>q\<rfloor> \<le> q" "q < of_int \<lfloor>q\<rfloor> + 1"
    by linarith+
  then show ?thesis
    by (auto simp: round_even_def Let_def)
qed

lemma rnd_error:
  assumes "rnd fmt r = Fin v"
  shows "\<bar>v - r\<bar> \<le> ulp fmt r / 2"
proof -
  define u where "u = ulp fmt r"
  have u: "0 < u" by (simp add: u_def ulp_pos)
  have v: "v = of_int (round_even (r / u)) * u"
    using rnd_value [of fmt r] assms by (simp add: u_def)
  have "v - r = (of_int (round_even (r / u)) - r / u) * u"
    using u by (simp add: v algebra_simps)
  then have "\<bar>v - r\<bar> = \<bar>of_int (round_even (r / u)) - r / u\<bar> * u"
    using u by (simp add: abs_mult)
  also have "\<dots> \<le> 1 / 2 * u"
    using round_even_error [of "r / u"] u by (intro mult_right_mono) simp_all
  finally show ?thesis by (simp add: u_def)
qed

lemma half_size_error:
  assumes rep: "representable binary32 r"
  shows "\<exists>h. rnd binary32 (r / 2) = Fin h \<and> \<bar>h - r / 2\<bar> \<le> 2 powi (- 150)
           \<and> (r = 0 \<or> 2 powi (- 125) \<le> \<bar>r\<bar> \<longrightarrow> h = r / 2)
           \<and> (0 \<le> r \<longrightarrow> 0 \<le> h) \<and> (r \<le> 0 \<longrightarrow> h \<le> 0)"
proof -
  obtain h where h: "rnd binary32 (r / 2) = Fin h" "0 \<le> r \<longrightarrow> 0 \<le> h" "r \<le> 0 \<longrightarrow> h \<le> 0"
    using half_size [OF representable32_bounded [OF rep]] by blast
  have exact: "h = r / 2" if "r = 0 \<or> 2 powi (- 125) \<le> \<bar>r\<bar>"
    using half_size_exact [OF rep that] h(1) by simp
  have "\<bar>h - r / 2\<bar> \<le> 2 powi (- 150)"
  proof (cases "r = 0 \<or> 2 powi (- 125) \<le> \<bar>r\<bar>")
    case True
    then show ?thesis using exact by simp
  next
    case False
    then have "\<bar>r\<bar> < 2 powi (- 125)" by simp
    then have "\<bar>r\<bar> < 2 * 2 powi (- 126)"
      using pow2_split [of "- 125" "- 126" 1] by simp
    then have small: "\<bar>r / 2\<bar> < 2 powi (- 126)" by simp
    have "exponent binary32 (r / 2) = - 126"
    proof (rule ccontr)
      assume ne: "exponent binary32 (r / 2) \<noteq> - 126"
      have "emin binary32 \<le> exponent binary32 (r / 2)"
        using exponent_range [OF wellformed_binary(1)] by blast
      then have gt: "emin binary32 < exponent binary32 (r / 2)"
        using ne by (simp add: binary32_def)
      have "2 powi (exponent binary32 (r / 2)) \<le> \<bar>r / 2\<bar>"
        using exponent_lower [OF wellformed_binary(1) gt] .
      then have "(2 :: real) powi (exponent binary32 (r / 2)) < 2 powi (- 126)"
        using small by (rule le_less_trans)
      then have "exponent binary32 (r / 2) < - 126"
        by (simp only: pow2_less_iff)
      then show False using gt by (simp add: binary32_def)
    qed
    then have "ulp binary32 (r / 2) = 2 powi (- 149)"
      by (simp add: ulp_def binary32_def)
    then have "\<bar>h - r / 2\<bar> \<le> 2 powi (- 149) / 2"
      using rnd_error [OF h(1)] by simp
    also have "(2 :: real) powi (- 149) / 2 = 2 powi (- 150)"
      using pow2_split [of "- 149" "- 150" 1] by simp
    finally show ?thesis .
  qed
  then show ?thesis
    using h exact by blast
qed

section \<open>Facts about the model\<close>


lemma objectPoints_Fin:
  "rnd binary32 (r / 2) = Fin h \<Longrightarrow>
   objectPoints (Fin r) =
     [(Fin (- h), Fin h, Fin 0), (Fin h, Fin h, Fin 0),
      (Fin h, Fin (- h), Fin 0), (Fin (- h), Fin (- h), Fin 0)]"
  by (simp add: objectPoints_def Let_def)

lemma solve_calls_append: "solve_calls (xs @ ys) = solve_calls xs @ solve_calls ys"
  by (induction xs) (auto split: event.splits)



subsection \<open>One pass through the loop body\<close>

lemma process_marker_fault:
  "marker_size n m = None \<Longrightarrow> process_marker cv n img m = ([], Inl SegFault)"
  by (simp add: process_marker_def)

lemma process_marker_skip:
  "marker_size n m = Some s \<Longrightarrow> isnan s \<or> isinf s \<Longrightarrow>
   process_marker cv n img m = ([], Inr img)"
  by (auto simp: process_marker_def)

lemma zero_focal_length_invalid:
  assumes "at00 (camera_matrix n) = Some (Fin 0)"
  shows "\<exists>s. marker_size n m = Some s \<and> (isnan s \<or> isinf s)"
proof -
  have q: "fdiv binary64 w (Fin 0) = Inf \<or> fdiv binary64 w (Fin 0) = NaN" for w
    by (cases w) simp_all
  have "fmul binary64 x g = Inf \<or> fmul binary64 x g = NaN" if "x = Inf \<or> x = NaN" for x g
    using that by (cases g) auto
  then have "isnan (fcast binary32 (fmul binary64 (fdiv binary64 w (Fin 0)) g))
        \<or> isinf (fcast binary32 (fmul binary64 (fdiv binary64 w (Fin 0)) g))" for w g
    using q [of w] by (metis fcast.simps(2,3) isinf.simps(1) isnan.simps(1))
  then show ?thesis using assms by (simp add: marker_size_def)
qed


lemma process_marker_axis:
  "marker_size n m = Some s \<Longrightarrow> \<not> isnan s \<Longrightarrow> \<not> isinf s \<Longrightarrow>
   solvePnP cv (objectPoints s) (corners m) (camera_matrix n) (dist_coeffs n)
     = Inr (ok, rvec, tvec) \<Longrightarrow>
   drawAxis cv img (camera_matrix n) (dist_coeffs n) rvec tvec s = r \<Longrightarrow>
   process_marker cv n img m
     = ([Log (LogMarkerSize s), Log (LogInfo ''solvePnP''),
         CallSolvePnP (objectPoints s) (corners m) (camera_matrix n) (dist_coeffs n),
         Log (LogInfo ''drawing axis''), CallDrawAxis rvec tvec s], r)"
  by (cases r) (simp_all add: process_marker_def)

lemma solve_calls_process_marker:
  "marker_size n m = Some s \<Longrightarrow> \<not> isnan s \<Longrightarrow> \<not> isinf s \<Longrightarrow>
   solve_calls (fst (process_marker cv n img m)) = [(objectPoints s, corners m)]"
  by (auto simp: process_marker_def Let_def split: sum.splits prod.splits)

lemma solve_calls_process_marker_skip:
  "\<not> passes_guard n m \<Longrightarrow> solve_calls (fst (process_marker cv n img m)) = []"
  by (auto simp: process_marker_def passes_guard_def split: option.splits)


lemma process_marker_returns:
  assumes "calls_return cv n m"
  shows "\<exists>img'. snd (process_marker cv n img m) = Inr img'"
proof -
  obtain s where s: "marker_size n m = Some s"
    and ok: "\<not> isnan s \<and> \<not> isinf s \<longrightarrow>
             (\<exists>res. solvePnP cv (objectPoints s) (corners m) (camera_matrix n) (dist_coeffs n)
                      = Inr res)
           \<and> (\<forall>img rvec tvec. \<exists>img'.
                 drawAxis cv img (camera_matrix n) (dist_coeffs n) rvec tvec s = Inr img')"
    using assms unfolding calls_return_def by blast
  show ?thesis
  proof (cases "\<not> isnan s \<and> \<not> isinf s")
    case False
    then show ?thesis using s by (auto simp: process_marker_def)
  next
    case True
    then obtain ok' rvec tvec where
      solve: "solvePnP cv (objectPoints s) (corners m) (camera_matrix n) (dist_coeffs n)
                = Inr (ok', rvec, tvec)"
      using ok by (metis prod_cases3)
    obtain img' where
      "drawAxis cv img (camera_matrix n) (dist_coeffs n) rvec tvec s = Inr img'"
      using ok True by blast
    then show ?thesis
      using s True solve by (simp add: process_marker_def Let_def)
  qed
qed

subsection \<open>The loop\<close>


lemma marker_loop_quiet:
  assumes "\<forall>m\<in>set ms. calls_return cv n m"
  shows "(\<exists>img'. snd (marker_loop cv n ms img) = Inr img')
       \<and> solve_calls (fst (marker_loop cv n ms img))
           = map (\<lambda>m. (objectPoints (the (marker_size n m)), corners m))
               (filter (passes_guard n) ms)"
  using assms
proof (induction ms arbitrary: img)
  case Nil
  show ?case by simp
next
  case (Cons m ms)
  obtain evs img1 where pm: "process_marker cv n img m = (evs, Inr img1)"
    using process_marker_returns [of cv n m img] Cons.prems
    by (cases "process_marker cv n img m") auto
  obtain evs' img2 where lp: "marker_loop cv n ms img1 = (evs', Inr img2)"
    using Cons.IH [of img1] Cons.prems
    by (cases "marker_loop cv n ms img1") auto
  have calls: "solve_calls evs' = map (\<lambda>m. (objectPoints (the (marker_size n m)), corners m))
               (filter (passes_guard n) ms)"
    using Cons.IH [of img1] Cons.prems lp by simp
  have first: "solve_calls evs
                 = (if passes_guard n m then [(objectPoints (the (marker_size n m)), corners m)]
                    else [])"
  proof (cases "passes_guard n m")
    case True
    then obtain s where "marker_size n m = Some s" "\<not> isnan s" "\<not> isinf s"
      by (auto simp: passes_guard_def split: option.splits)
    then show ?thesis
      using solve_calls_process_marker [of n m s cv img] pm True by simp
  next
    case False
    then show ?thesis
      using solve_calls_process_marker_skip [of n m cv img] pm by simp
  qed
  show ?case
    using pm lp calls first by (simp add: solve_calls_append)
qed


subsection \<open>The frame callback\<close>

lemma image_callback_decode_fails:
  "toCvCopy cv msg BGR8 = Inl e \<Longrightarrow> image_callback cv n msg = handler n [] e"
  by (simp add: image_callback_def)

lemma image_callback_no_markers:
  assumes "toCvCopy cv msg BGR8 = Inr img"
    and "detectMarkers cv img (dictionary n) = []"
  shows "image_callback cv n msg =
           \<lparr>state = n,
            trace = [Publish \<lparr>cv_header = header msg, cv_encoding = BGR8, cv_image = img\<rparr>],
            escaped = None\<rparr>"
  using assms by (simp add: image_callback_def)

lemma image_callback_markers:
  assumes "toCvCopy cv msg BGR8 = Inr img"
    and "detectMarkers cv img (dictionary n) = ids"
    and "ids \<noteq> []"
    and "marker_loop cv n ids (drawDetectedMarkers cv img ids) = (evs, r)"
  shows "image_callback cv n msg =
           (case r of
              Inl e \<Rightarrow> handler n (Log (LogInfo ''drawing detected markers'')
                                   # CallDrawDetectedMarkers ids # evs) e
            | Inr img' \<Rightarrow>
                \<lparr>state = n,
                 trace = Log (LogInfo ''drawing detected markers'')
                           # CallDrawDetectedMarkers ids
                           # evs @ [Publish \<lparr>cv_header = header msg, cv_encoding = BGR8,
                                            cv_image = img'\<rparr>],
                 escaped = None\<rparr>)"
  using assms by (cases r) (simp_all add: image_callback_def)

lemma state_handler: "state (handler n evs e) = n"
  by (simp add: handler_def)

lemma state_image_callback: "state (image_callback cv n msg) = n"
  by (auto simp: image_callback_def state_handler Let_def split: sum.splits prod.splits)


subsection \<open>Delivery of messages\<close>

lemma spin_state:
  "state (spin cv n msgs) = n\<lparr>ground_distance := ground_distance (state (spin cv n msgs))\<rparr>"
proof (induction msgs arbitrary: n)
  case Nil
  show ?case by simp
next
  case (Cons msg msgs)
  show ?case
  proof (cases msg)
    case (DistanceMsg d)
    have "state (spin cv (distance_sensor_callback n d) msgs)
            = (distance_sensor_callback n d)
                \<lparr>ground_distance := ground_distance
                    (state (spin cv (distance_sensor_callback n d) msgs))\<rparr>"
      by (rule Cons.IH)
    then show ?thesis
      using DistanceMsg by (simp add: distance_sensor_callback_def)
  next
    case (ImageMsg im)
    show ?thesis
    proof (cases "escaped (image_callback cv n im)")
      case None
      have "state (spin cv n msgs) = n\<lparr>ground_distance := ground_distance (state (spin cv n msgs))\<rparr>"
        by (rule Cons.IH)
      then show ?thesis
        using ImageMsg None by (simp add: Let_def state_image_callback)
    next
      case (Some e)
      then show ?thesis
        using ImageMsg by (simp add: Let_def state_image_callback)
    qed
  qed
qed

lemma spin_last_distance:
  "escaped (spin cv n msgs) = None \<Longrightarrow>
   ground_distance (state (spin cv n msgs)) = last_distance (ground_distance n) msgs"
proof (induction msgs arbitrary: n)
  case Nil
  show ?case by simp
next
  case (Cons msg msgs)
  show ?case
  proof (cases msg)
    case (DistanceMsg d)
    then show ?thesis
      using Cons.IH [of "distance_sensor_callback n d"] Cons.prems
      by (simp add: distance_sensor_callback_def)
  next
    case (ImageMsg im)
    show ?thesis
    proof (cases "escaped (image_callback cv n im)")
      case None
      then show ?thesis
        using ImageMsg Cons.IH [of n] Cons.prems
        by (simp add: Let_def state_image_callback)
    next
      case (Some e)
      then show ?thesis
        using ImageMsg Cons.prems by (simp add: Let_def)
    qed
  qed
qed



subsection \<open>The simulated library on the scenes\<close>

lemma tracker_fields:
  "camera_matrix (tracker K D a) = K" "dist_coeffs (tracker K D a) = D"
  "ground_distance (tracker K D a) = a" "dictionary (tracker K D a) = DICT_4X4_250"
  by (simp_all add: tracker_def ArucoTrackerNode_def distance_sensor_callback_def
      Let_def split: prod.splits)

lemma tracker_default:
  "fst (ArucoTrackerNode (Some \<lparr>file_camera_matrix = K, file_distortion_coefficients = D\<rparr>))
     = tracker K D (Fin 1)"
  by (simp add: tracker_def ArucoTrackerNode_def distance_sensor_callback_def Let_def
      split: prod.splits)

lemma sim_cv_fields:
  "toCvCopy sim_cv = sim_toCvCopy" "detectMarkers sim_cv = (\<lambda>img d. fst img)"
  "drawDetectedMarkers sim_cv = (\<lambda>img ms. (fst img, snd img + length ms))"
  "solvePnP sim_cv = sim_solvePnP" "drawAxis sim_cv = sim_drawAxis"
  by (simp_all add: sim_cv_def)

lemma decode_frame: "toCvCopy sim_cv (frame ms) BGR8 = Inr (ms, 0)"
  by (simp add: sim_cv_fields sim_toCvCopy_def frame_def)

lemma detect_frame: "detectMarkers sim_cv (ms, k) d = ms"
  by (simp add: sim_cv_fields)

lemma drawn_frame: "drawDetectedMarkers sim_cv (ms, k) ids = (ms, k + length ids)"
  by (simp add: sim_cv_fields)

lemma header_frame: "header (frame ms) = hdr"
  by (simp add: frame_def)

lemma corners_square: "corners square_marker = [(100, 100), (150, 100), (150, 150), (100, 150)]"
  by (simp add: corners_def square_marker_def)


lemma corners_unit: "corners unit_marker = [(30, 40), (31, 40), (31, 41), (30, 41)]"
  by (simp add: corners_def unit_marker_def)

lemma pw_square: "pixel_width square_marker = Fin 50"
  using pixel_width_horizontal [of square_marker 100 100 150 "- 50"]
  by (simp add: square_marker_def)



lemma pw_unit: "pixel_width unit_marker = Fin 1"
  using pixel_width_horizontal [of unit_marker 30 40 31 "- 1"]
  by (simp add: unit_marker_def)

lemma at00_K: "at00 K_cam = Some (Fin 500)" "at00 K_zero = Some (Fin 0)"
  "at00 K_one = Some (Fin 1)" "at00 K_far = Some (Fin 1048576)"
  by (simp_all add: K_cam_def K_zero_def K_one_def K_far_def)

lemma float_exact:
  "r = of_int m * 2 powi k \<Longrightarrow> \<bar>m\<bar> < 2 ^ 24 \<Longrightarrow> - 149 \<le> k \<Longrightarrow> \<bar>r\<bar> < 2 powi 128 \<Longrightarrow>
   rnd binary32 r = Fin r"
  using rnd_exact [OF wellformed_binary(1), of r m k] by (simp add: binary32_def)

lemma double_exact:
  "r = of_int m * 2 powi k \<Longrightarrow> \<bar>m\<bar> < 2 ^ 53 \<Longrightarrow> - 1074 \<le> k \<Longrightarrow> \<bar>r\<bar> < 2 powi 1024 \<Longrightarrow>
   rnd binary64 r = Fin r"
  using rnd_exact [OF wellformed_binary(2), of r m k] by (simp add: binary64_def)

text \<open>
  The quotient 50 / 500 in \<open>double\<close> is the \<open>double\<close> nearest to one tenth; narrowed
  to \<open>float\<close> it is \<open>tenth\<close>, and its double is twice \<open>tenth\<close>.
\<close>

lemma double_tenth: "rnd binary64 (1 / 10) = Fin (3602879701896397 / 36028797018963968)"
  using rnd_eval [OF wellformed_binary(2), of "- 4" "1 / 10" 7205759403792794]
  by (simp add: binary64_def round_even_def power_int_minus)

lemma double_tenth_exact:
  "rnd binary64 (3602879701896397 / 36028797018963968)
     = Fin (3602879701896397 / 36028797018963968)"
  "rnd binary64 (3602879701896397 / 18014398509481984)
     = Fin (3602879701896397 / 18014398509481984)"
  using double_exact [of "3602879701896397 / 36028797018963968" 3602879701896397 "- 55"]
    double_exact [of "3602879701896397 / 18014398509481984" 3602879701896397 "- 54"]
  by (simp_all add: power_int_minus)

lemma float_tenth:
  "rnd binary32 (3602879701896397 / 36028797018963968) = Fin tenth"
  "rnd binary32 (3602879701896397 / 18014398509481984) = Fin (2 * tenth)"
  using rnd_eval [OF wellformed_binary(1), of "- 4" "3602879701896397 / 36028797018963968"
      13421773]
    rnd_eval [OF wellformed_binary(1), of "- 3" "3602879701896397 / 18014398509481984"
      13421773]
  by (simp_all add: binary32_def round_even_def power_int_minus tenth_def)

lemma half_tenth:
  "rnd binary32 (tenth / 2) = Fin (tenth / 2)"
  "rnd binary32 (2 * tenth / 2) = Fin tenth"
  "rnd binary32 (- tenth / 2) = Fin (- (tenth / 2))"
proof -
  show a: "rnd binary32 (tenth / 2) = Fin (tenth / 2)"
    using float_exact [of "tenth / 2" 13421773 "- 28"]
    by (simp add: tenth_def power_int_minus)
  show "rnd binary32 (2 * tenth / 2) = Fin tenth"
    using float_exact [of tenth 13421773 "- 27"]
    by (simp add: tenth_def power_int_minus)
  show "rnd binary32 (- tenth / 2) = Fin (- (tenth / 2))"
    using a rnd_minus [of binary32 "tenth / 2"] by simp
qed

lemma tenth_pos: "0 < tenth"
  by (simp add: tenth_def)

lemma ms_square:
  "marker_size (tracker K_cam D (Fin 1)) square_marker = Some (Fin tenth)"
  "marker_size (tracker K_cam D (Fin 2)) square_marker = Some (Fin (2 * tenth))"
  "marker_size (tracker K_cam D (Fin (- 1))) square_marker = Some (Fin (- tenth))"
proof -
  have q: "fdiv binary64 (pixel_width square_marker) (Fin 500)
             = Fin (3602879701896397 / 36028797018963968)"
    using double_tenth by (simp add: pw_square)
  show "marker_size (tracker K_cam D (Fin 1)) square_marker = Some (Fin tenth)"
    by (simp add: marker_size_def tracker_fields at00_K q double_tenth_exact float_tenth)
  show "marker_size (tracker K_cam D (Fin 2)) square_marker = Some (Fin (2 * tenth))"
    by (simp add: marker_size_def tracker_fields at00_K q double_tenth_exact float_tenth)
  have "rnd binary64 (- (3602879701896397 / 36028797018963968))
          = Fin (- (3602879701896397 / 36028797018963968))"
    by (simp only: rnd_minus double_tenth_exact fneg.simps)
  moreover have "rnd binary32 (- (3602879701896397 / 36028797018963968)) = Fin (- tenth)"
    by (simp only: rnd_minus float_tenth fneg.simps)
  ultimately show "marker_size (tracker K_cam D (Fin (- 1))) square_marker
                     = Some (Fin (- tenth))"
    by (simp add: marker_size_def tracker_fields at00_K q)
qed




lemma ms_square_zero: "marker_size (tracker K_zero D (Fin 1)) square_marker = Some Inf"
  by (simp add: marker_size_def tracker_fields at00_K pw_square)

text \<open>
  With focal length one and the altitude \<open>2 ^ 127\<close>, the size of the square of 50
  pixels is beyond the largest \<open>float\<close>, that of the square of one pixel is not.
\<close>

lemma ms_high:
  "marker_size (tracker K_one D (Fin (2 ^ 127))) square_marker = Some Inf"
  "marker_size (tracker K_one D (Fin (2 ^ 127))) unit_marker = Some (Fin (2 ^ 127))"
proof -
  have a: "rnd binary64 50 = Fin 50" "rnd binary64 1 = Fin 1"
    using rnd64_int [of 50] rnd64_int [of 1] by simp_all
  have b: "rnd binary64 (50 * 2 ^ 127) = Fin (50 * 2 ^ 127)"
    using double_exact [of "50 * 2 ^ 127" 50 127] by simp
  have c: "rnd binary64 (2 ^ 127) = Fin (2 ^ 127)" "rnd binary32 (2 ^ 127) = Fin (2 ^ 127)"
    using double_exact [of "2 ^ 127" 1 127] float_exact [of "2 ^ 127" 1 127] by simp_all
  have d: "rnd binary32 (50 * 2 ^ 127) = Inf"
    using rnd_overflow [OF wellformed_binary(1), of "50 * 2 ^ 127"]
    by (simp add: binary32_def)
  show "marker_size (tracker K_one D (Fin (2 ^ 127))) square_marker = Some Inf"
    using a b d by (simp add: marker_size_def tracker_fields at00_K pw_square)
  show "marker_size (tracker K_one D (Fin (2 ^ 127))) unit_marker = Some (Fin (2 ^ 127))"
    using a c by (simp add: marker_size_def tracker_fields at00_K pw_unit)
qed

lemma half_high: "rnd binary32 (2 ^ 127 / 2) = Fin (2 ^ 126)"
  using float_exact [of "2 ^ 126" 1 126] by simp


lemma axis_positive: "0 < l \<Longrightarrow> sim_drawAxis (sc, k) K D rvec tvec (Fin l) = Inr (sc, Suc k)"
  by (simp add: sim_drawAxis_def)

lemma axis_nonpositive: "l \<le> 0 \<Longrightarrow> sim_drawAxis img K D rvec tvec (Fin l) = Inl CvException"
  by (simp add: sim_drawAxis_def)

lemma sim_solve:
  assumes "rnd binary32 (r / 2) = Fin h" and "h \<noteq> 0"
  shows "sim_solvePnP (objectPoints (Fin r)) pts K D
           = Inr (distinct pts, (Fin 0, Fin 0, Fin 0),
                  (Fin 0, Fin 0, if distinct pts then Fin 1 else Fin 0))"
  using assms(2) by (simp add: sim_solvePnP_def objectPoints_Fin [OF assms(1)])


lemma sim_marker:
  assumes "marker_size n m = Some (Fin r)" and "rnd binary32 (r / 2) = Fin h" and "h \<noteq> 0"
  shows "process_marker sim_cv n (sc, k) m
           = ([Log (LogMarkerSize (Fin r)), Log (LogInfo ''solvePnP''),
               CallSolvePnP (objectPoints (Fin r)) (corners m) (camera_matrix n)
                 (dist_coeffs n),
               Log (LogInfo ''drawing axis''),
               CallDrawAxis (Fin 0, Fin 0, Fin 0)
                 (Fin 0, Fin 0, if distinct (corners m) then Fin 1 else Fin 0) (Fin r)],
              if 0 < r then Inr (sc, Suc k) else Inl CvException)"
proof -
  have guard: "\<not> isnan (Fin r)" "\<not> isinf (Fin r)" by simp_all
  have solve: "solvePnP sim_cv (objectPoints (Fin r)) (corners m) (camera_matrix n)
                 (dist_coeffs n)
               = Inr (distinct (corners m), (Fin 0, Fin 0, Fin 0),
                      (Fin 0, Fin 0, if distinct (corners m) then Fin 1 else Fin 0))"
    using sim_solve [OF assms(2,3)] by (simp add: sim_cv_fields)
  have axis: "drawAxis sim_cv (sc, k) (camera_matrix n) (dist_coeffs n) (Fin 0, Fin 0, Fin 0)
                (Fin 0, Fin 0, if distinct (corners m) then Fin 1 else Fin 0) (Fin r)
              = (if 0 < r then Inr (sc, Suc k) else Inl CvException)"
    by (simp add: sim_cv_fields sim_drawAxis_def)
  show ?thesis
    using process_marker_axis [OF assms(1) guard solve axis] .
qed


lemma sim_calls_return:
  assumes "marker_size n m = Some (Fin r)" and "rnd binary32 (r / 2) = Fin h" and "h \<noteq> 0"
    and "0 < r"
  shows "calls_return sim_cv n m"
  using assms sim_solve [OF assms(2,3)]
  by (auto simp: calls_return_def sim_cv_fields axis_positive)

lemma sim_calls_return_skipped:
  "marker_size n m = Some Inf \<Longrightarrow> calls_return cv n m"
  by (simp add: calls_return_def)

section \<open>The claims\<close>







text \<open>
  C3, as the code has it. The altitude callback makes no test on the sample: every sample,
  a negative one too, replaces the stored altitude, and nothing else of the node changes.
\<close>

theorem distance_sample_overwrites:
  "ground_distance (distance_sensor_callback n msg) = current_distance msg
   \<and> camera_matrix (distance_sensor_callback n msg) = camera_matrix n
   \<and> dist_coeffs (distance_sensor_callback n msg) = dist_coeffs n
   \<and> dictionary (distance_sensor_callback n msg) = dictionary n"
  by (simp add: distance_sensor_callback_def)

text \<open>
  C3 as stated fails: with 2 stored, a sample of -1 is not rejected. The stored altitude
  becomes -1.
\<close>

theorem negative_sample_overwrites:
  "ground_distance (tracker K_cam D_cam (Fin 2)) = Fin 2
   \<and> ground_distance (distance_sensor_callback (tracker K_cam D_cam (Fin 2))
                         \<lparr>current_distance = Fin (- 1)\<rparr>) = Fin (- 1)
   \<and> ground_distance (distance_sensor_callback (tracker K_cam D_cam (Fin 2))
                         \<lparr>current_distance = Fin (- 1)\<rparr>)
       \<noteq> ground_distance (tracker K_cam D_cam (Fin 2))"
  by (simp add: tracker_fields distance_sensor_callback_def)

text \<open>
  C4, at its failing inputs. When the calibration file cannot be opened, the constructor logs
  the two errors and returns a node with empty matrices; the first frame with a marker then
  reads the focal length from the empty camera matrix, and nothing is published. When the
  file opens but holds no distortion coefficients, the constructor logs the error and the
  frame callback estimates the size, calls the pose solver and draws the overlay as usual.
\<close>

theorem missing_calibration_not_gated:
  "snd (ArucoTrackerNode None)
     = [LogInfo ''ArucoTrackerNode :)'', LogError ''Failed to open camera calibration file'',
        LogError ''Failed to load camera parameters correctly.'']
   \<and> escaped (image_callback sim_cv (fst (ArucoTrackerNode None)) (frame [square_marker]))
       = Some SegFault
   \<and> published (trace (image_callback sim_cv (fst (ArucoTrackerNode None))
                           (frame [square_marker]))) = []
   \<and> snd (ArucoTrackerNode
             (Some \<lparr>file_camera_matrix = K_cam, file_distortion_coefficients = []\<rparr>))
       = [LogInfo ''ArucoTrackerNode :)'',
          LogError ''Failed to load camera parameters correctly.'']
   \<and> solve_calls (trace (image_callback sim_cv
          (fst (ArucoTrackerNode
                  (Some \<lparr>file_camera_matrix = K_cam, file_distortion_coefficients = []\<rparr>)))
          (frame [square_marker])))
       = [(objectPoints (Fin tenth), corners square_marker)]
   \<and> axis_calls (trace (image_callback sim_cv
          (fst (ArucoTrackerNode
                  (Some \<lparr>file_camera_matrix = K_cam, file_distortion_coefficients = []\<rparr>)))
          (frame [square_marker])))
       = [((Fin 0, Fin 0, Fin 0), (Fin 0, Fin 0, Fin 1), Fin tenth)]"
proof -
  let ?n0 = "fst (ArucoTrackerNode None)"
  have nz: "tenth / 2 \<noteq> 0"
    using tenth_pos by simp
  have "marker_size ?n0 square_marker = None"
    by (simp add: marker_size_def ArucoTrackerNode_def)
  then have "marker_loop sim_cv ?n0 [square_marker]
               (drawDetectedMarkers sim_cv ([square_marker], 0) [square_marker])
             = ([], Inl SegFault)"
    by (simp add: process_marker_fault)
  then have unavailable:
    "image_callback sim_cv ?n0 (frame [square_marker])
       = \<lparr>state = ?n0,
          trace = [Log (LogInfo ''drawing detected markers''),
                   CallDrawDetectedMarkers [square_marker]],
          escaped = Some SegFault\<rparr>"
    using image_callback_markers [OF decode_frame detect_frame, of "[square_marker]" ?n0
        "[]" "Inl SegFault"]
    by (simp add: handler_def)
  have "marker_loop sim_cv (tracker K_cam [] (Fin 1)) [square_marker]
          (drawDetectedMarkers sim_cv ([square_marker], 0) [square_marker])
        = ([Log (LogMarkerSize (Fin tenth)), Log (LogInfo ''solvePnP''),
            CallSolvePnP (objectPoints (Fin tenth)) (corners square_marker) K_cam [],
            Log (LogInfo ''drawing axis''),
            CallDrawAxis (Fin 0, Fin 0, Fin 0) (Fin 0, Fin 0, Fin 1) (Fin tenth)],
           Inr ([square_marker], 2))"
    using tenth_pos
    by (simp add: sim_marker [OF ms_square(1) half_tenth(1) nz] drawn_frame tracker_fields
        corners_square)
  then have incomplete:
    "image_callback sim_cv (tracker K_cam [] (Fin 1)) (frame [square_marker])
       = \<lparr>state = tracker K_cam [] (Fin 1),
          trace = [Log (LogInfo ''drawing detected markers''),
                   CallDrawDetectedMarkers [square_marker],
                   Log (LogMarkerSize (Fin tenth)), Log (LogInfo ''solvePnP''),
                   CallSolvePnP (objectPoints (Fin tenth)) (corners square_marker) K_cam [],
                   Log (LogInfo ''drawing axis''),
                   CallDrawAxis (Fin 0, Fin 0, Fin 0) (Fin 0, Fin 0, Fin 1) (Fin tenth),
                   Publish \<lparr>cv_header = hdr, cv_encoding = BGR8,
                            cv_image = ([square_marker], 2)\<rparr>],
          escaped = None\<rparr>"
    using image_callback_markers [OF decode_frame detect_frame, of "[square_marker]"
        "tracker K_cam [] (Fin 1)"]
    by (simp add: header_frame)
  have logs: "snd (ArucoTrackerNode None)
     = [LogInfo ''ArucoTrackerNode :)'', LogError ''Failed to open camera calibration file'',
        LogError ''Failed to load camera parameters correctly.'']"
    "snd (ArucoTrackerNode
             (Some \<lparr>file_camera_matrix = K_cam, file_distortion_coefficients = []\<rparr>))
       = [LogInfo ''ArucoTrackerNode :)'',
          LogError ''Failed to load camera parameters correctly.'']"
    by (simp_all add: ArucoTrackerNode_def mat_empty_def K_cam_def)
  show ?thesis
    using logs by (simp add: unavailable incomplete tracker_default)
qed

text \<open>
  C5. A marker whose size is not-a-number or infinite is skipped: its pass through the
  loop body makes no call, logs nothing and leaves the image as it was, and the loop gives
  the same result as on the frame's other markers alone; when the library calls made for
  these return, each of them that passes the guard gets its solver call. A focal length of
  zero always gives such a size (\<open>zero_focal_length_invalid\<close>). The witness runs a
  frame in which the size of one marker overflows and the two markers around it are valid.
\<close>

theorem invalid_size_marker_skipped:
  assumes "marker_size n m = Some s" and "isnan s \<or> isinf s"
  shows "process_marker cv n img m = ([], Inr img)
       \<and> marker_loop cv n (before @ m # after) img = marker_loop cv n (before @ after) img
       \<and> ((\<forall>x\<in>set (before @ after). calls_return cv n x) \<longrightarrow>
            (\<exists>img'. snd (marker_loop cv n (before @ m # after) img) = Inr img')
            \<and> solve_calls (fst (marker_loop cv n (before @ m # after) img))
                = map (\<lambda>x. (objectPoints (the (marker_size n x)), corners x))
                    (filter (passes_guard n) (before @ after)))"
proof -
  have skip: "process_marker cv n i m = ([], Inr i)" for i
    using assms by (rule process_marker_skip)
  have same: "marker_loop cv n (before @ m # after) img = marker_loop cv n (before @ after) img"
  proof (induction before arbitrary: img)
    case Nil
    show ?case using skip [of img] by (simp split: prod.splits)
  next
    case (Cons b bs)
    show ?case
      by (simp add: Cons.IH split: prod.splits sum.splits)
  qed
  have others: "(\<exists>img'. snd (marker_loop cv n (before @ m # after) img) = Inr img')
            \<and> solve_calls (fst (marker_loop cv n (before @ m # after) img))
                = map (\<lambda>x. (objectPoints (the (marker_size n x)), corners x))
                    (filter (passes_guard n) (before @ after))"
    if "\<forall>x\<in>set (before @ after). calls_return cv n x"
    using marker_loop_quiet [OF that, of img] by (simp only: same)
  show ?thesis
    using skip same others by blast
qed

theorem invalid_size_marker_skipped_witness:
  "marker_size (tracker K_one D_cam (Fin (2 ^ 127))) square_marker = Some Inf
   \<and> (isnan Inf \<or> isinf Inf)
   \<and> marker_size (tracker K_one D_cam (Fin (2 ^ 127))) unit_marker = Some (Fin (2 ^ 127))
   \<and> calls_return sim_cv (tracker K_one D_cam (Fin (2 ^ 127))) unit_marker
   \<and> process_marker sim_cv (tracker K_one D_cam (Fin (2 ^ 127))) ([square_marker], 1)
       square_marker
       = ([], Inr ([square_marker], 1))
   \<and> marker_loop sim_cv (tracker K_one D_cam (Fin (2 ^ 127)))
        ([unit_marker] @ square_marker # [unit_marker]) ([], 0)
       = marker_loop sim_cv (tracker K_one D_cam (Fin (2 ^ 127)))
           ([unit_marker] @ [unit_marker]) ([], 0)
   \<and> snd (marker_loop sim_cv (tracker K_one D_cam (Fin (2 ^ 127)))
             ([unit_marker] @ square_marker # [unit_marker]) ([], 0)) = Inr ([], 2)
   \<and> solve_calls (fst (marker_loop sim_cv (tracker K_one D_cam (Fin (2 ^ 127)))
                         ([unit_marker] @ square_marker # [unit_marker]) ([], 0)))
       = [([(Fin (- (2 ^ 126)), Fin (2 ^ 126), Fin 0), (Fin (2 ^ 126), Fin (2 ^ 126), Fin 0),
            (Fin (2 ^ 126), Fin (- (2 ^ 126)), Fin 0),
            (Fin (- (2 ^ 126)), Fin (- (2 ^ 126)), Fin 0)],
           [(30, 40), (31, 40), (31, 41), (30, 41)]),
          ([(Fin (- (2 ^ 126)), Fin (2 ^ 126), Fin 0), (Fin (2 ^ 126), Fin (2 ^ 126), Fin 0),
            (Fin (2 ^ 126), Fin (- (2 ^ 126)), Fin 0),
            (Fin (- (2 ^ 126)), Fin (- (2 ^ 126)), Fin 0)],
           [(30, 40), (31, 40), (31, 41), (30, 41)])]"
proof -
  define n where "n = tracker K_one D_cam (Fin (2 ^ 127))"
  have size: "marker_size n square_marker = Some Inf"
    unfolding n_def by (rule ms_high(1))
  have valid: "marker_size n unit_marker = Some (Fin (2 ^ 127))"
    unfolding n_def by (rule ms_high(2))
  have bad: "isnan Inf \<or> isinf Inf"
    by simp
  have nz: "(2 :: real) ^ 126 \<noteq> 0" "(0 :: real) < 2 ^ 127"
    by simp_all
  have ret: "calls_return sim_cv n unit_marker"
    by (rule sim_calls_return [OF valid half_high nz])
  have pass: "passes_guard n unit_marker"
    using valid by (simp only: passes_guard_def option.case isnan.simps isinf.simps) simp
  have points: "objectPoints (the (marker_size n unit_marker))
                  = [(Fin (- (2 ^ 126)), Fin (2 ^ 126), Fin 0),
                     (Fin (2 ^ 126), Fin (2 ^ 126), Fin 0),
                     (Fin (2 ^ 126), Fin (- (2 ^ 126)), Fin 0),
                     (Fin (- (2 ^ 126)), Fin (- (2 ^ 126)), Fin 0)]"
    using objectPoints_Fin [OF half_high] by (simp only: valid option.sel)
  have quiet: "\<forall>x\<in>set ([unit_marker] @ [unit_marker]). calls_return sim_cv n x"
    using ret by simp
  note one = invalid_size_marker_skipped [OF size bad, where cv = sim_cv
        and img = "([square_marker], 1)" and before = "[]" and after = "[]"]
  note three = invalid_size_marker_skipped [OF size bad, where cv = sim_cv
        and img = "([], 0)" and before = "[unit_marker]" and after = "[unit_marker]"]
  have skipped: "process_marker sim_cv n ([square_marker], 1) square_marker
                   = ([], Inr ([square_marker], 1))"
    using one by (rule conjunct1)
  have same: "marker_loop sim_cv n ([unit_marker] @ square_marker # [unit_marker]) ([], 0)
                = marker_loop sim_cv n ([unit_marker] @ [unit_marker]) ([], 0)"
    using three by blast
  have "solve_calls (fst (marker_loop sim_cv n
                            ([unit_marker] @ square_marker # [unit_marker]) ([], 0)))
          = map (\<lambda>x. (objectPoints (the (marker_size n x)), corners x))
              (filter (passes_guard n) ([unit_marker] @ [unit_marker]))"
    using three quiet by blast
  then have "solve_calls (fst (marker_loop sim_cv n
                            ([unit_marker] @ square_marker # [unit_marker]) ([], 0)))
          = [(objectPoints (the (marker_size n unit_marker)), corners unit_marker),
             (objectPoints (the (marker_size n unit_marker)), corners unit_marker)]"
    using pass by simp
  then have calls: "solve_calls (fst (marker_loop sim_cv n
                            ([unit_marker] @ square_marker # [unit_marker]) ([], 0)))
       = [([(Fin (- (2 ^ 126)), Fin (2 ^ 126), Fin 0), (Fin (2 ^ 126), Fin (2 ^ 126), Fin 0),
            (Fin (2 ^ 126), Fin (- (2 ^ 126)), Fin 0),
            (Fin (- (2 ^ 126)), Fin (- (2 ^ 126)), Fin 0)],
           [(30, 40), (31, 40), (31, 41), (30, 41)]),
          ([(Fin (- (2 ^ 126)), Fin (2 ^ 126), Fin 0), (Fin (2 ^ 126), Fin (2 ^ 126), Fin 0),
            (Fin (2 ^ 126), Fin (- (2 ^ 126)), Fin 0),
            (Fin (- (2 ^ 126)), Fin (- (2 ^ 126)), Fin 0)],
           [(30, 40), (31, 40), (31, 41), (30, 41)])]"
    by (simp only: points corners_unit)
  have "snd (marker_loop sim_cv n ([unit_marker] @ [unit_marker]) ([], 0)) = Inr ([], 2)"
    by (simp add: sim_marker [OF valid half_high nz(1)])
  then have image: "snd (marker_loop sim_cv n
                           ([unit_marker] @ square_marker # [unit_marker]) ([], 0))
                      = Inr ([], 2)"
    by (simp only: same)
  show ?thesis
    by (intro conjI)
      (rule size [unfolded n_def], rule bad, rule valid [unfolded n_def],
        rule ret [unfolded n_def], rule skipped [unfolded n_def], rule same [unfolded n_def],
        rule image [unfolded n_def], rule calls [unfolded n_def])
qed






text \<open>
  C8. The constructor stores the altitude 1, whatever the calibration file. After any
  sequence of messages that \<open>spin\<close> delivered in full, the stored altitude is the
  distance of the last altitude sample, or the value held at the start when no sample
  came. The frame callback never writes it.
\<close>

theorem altitude_is_last_sample:
  "ground_distance (fst (ArucoTrackerNode fs)) = Fin 1
   \<and> ground_distance (state (image_callback cv n msg)) = ground_distance n
   \<and> (escaped (spin cv n msgs) = None \<longrightarrow>
        ground_distance (state (spin cv n msgs)) = last_distance (ground_distance n) msgs)"
  using spin_last_distance [of cv n msgs]
  by (simp add: ArucoTrackerNode_def Let_def state_image_callback split: prod.splits)

theorem altitude_is_last_sample_witness:
  "escaped (spin sim_cv (fst (ArucoTrackerNode None))
              [DistanceMsg \<lparr>current_distance = Fin 2\<rparr>, ImageMsg (frame []),
               DistanceMsg \<lparr>current_distance = Fin 3\<rparr>]) = None
   \<and> ground_distance (state (spin sim_cv (fst (ArucoTrackerNode None))
              [DistanceMsg \<lparr>current_distance = Fin 2\<rparr>, ImageMsg (frame []),
               DistanceMsg \<lparr>current_distance = Fin 3\<rparr>])) = Fin 3
   \<and> ground_distance (state (spin sim_cv (fst (ArucoTrackerNode None)) [ImageMsg (frame [])]))
       = Fin 1"
proof -
  have frame: "image_callback sim_cv n (frame [])
                 = \<lparr>state = n,
                    trace = [Publish \<lparr>cv_header = header (frame []), cv_encoding = BGR8,
                                      cv_image = ([], 0)\<rparr>],
                    escaped = None\<rparr>" for n
    using image_callback_no_markers [OF decode_frame detect_frame] .
  have run: "escaped (spin sim_cv (fst (ArucoTrackerNode None))
              [DistanceMsg \<lparr>current_distance = Fin 2\<rparr>, ImageMsg (frame []),
               DistanceMsg \<lparr>current_distance = Fin 3\<rparr>]) = None"
    by (simp add: frame Let_def)
  have run1: "escaped (spin sim_cv (fst (ArucoTrackerNode None)) [ImageMsg (frame [])]) = None"
    by (simp add: frame Let_def)
  show ?thesis
    using run run1
      altitude_is_last_sample [of None sim_cv "fst (ArucoTrackerNode None)" "frame []"
        "[DistanceMsg \<lparr>current_distance = Fin 2\<rparr>, ImageMsg (frame []),
          DistanceMsg \<lparr>current_distance = Fin 3\<rparr>]"]
      altitude_is_last_sample [of None sim_cv "fst (ArucoTrackerNode None)" "frame []"
        "[ImageMsg (frame [])]"]
    by simp
qed

text \<open>
  C9. The frame callback returns the node as it received it, and its result is a function
  of the frame, the stored altitude and the calibration only: after any two histories of
  delivered messages, frames and altitude samples alike, that end with the same stored
  altitude, the same frame gives the same trace, the same published frame and the same
  outcome. The library calls are functions of their arguments in this model.
\<close>

theorem frame_result_history_free:
  "state (image_callback cv n msg) = n
   \<and> (ground_distance (state (spin cv n before1)) = ground_distance (state (spin cv n before2))
        \<longrightarrow> image_callback cv (state (spin cv n before1)) msg
              = image_callback cv (state (spin cv n before2)) msg)"
proof -
  have "state (spin cv n before1) = state (spin cv n before2)"
    if "ground_distance (state (spin cv n before1))
          = ground_distance (state (spin cv n before2))"
    using spin_state [of cv n before1] spin_state [of cv n before2] that by simp
  then show ?thesis
    by (auto simp: state_image_callback)
qed

theorem frame_result_history_free_witness:
  "ground_distance (state (spin sim_cv (tracker K_cam D_cam (Fin 2))
        [ImageMsg (frame []), DistanceMsg \<lparr>current_distance = Fin 5\<rparr>,
         DistanceMsg \<lparr>current_distance = Fin 2\<rparr>]))
     = ground_distance (state (spin sim_cv (tracker K_cam D_cam (Fin 2)) []))
   \<and> image_callback sim_cv (state (spin sim_cv (tracker K_cam D_cam (Fin 2))
        [ImageMsg (frame []), DistanceMsg \<lparr>current_distance = Fin 5\<rparr>,
         DistanceMsg \<lparr>current_distance = Fin 2\<rparr>])) (frame [square_marker])
     = image_callback sim_cv (tracker K_cam D_cam (Fin 2)) (frame [square_marker])"
proof -
  have frame: "image_callback sim_cv n (frame [])
                 = \<lparr>state = n,
                    trace = [Publish \<lparr>cv_header = header (frame []), cv_encoding = BGR8,
                                      cv_image = ([], 0)\<rparr>],
                    escaped = None\<rparr>" for n
    using image_callback_no_markers [OF decode_frame detect_frame] .
  have same: "ground_distance (state (spin sim_cv (tracker K_cam D_cam (Fin 2))
        [ImageMsg (frame []), DistanceMsg \<lparr>current_distance = Fin 5\<rparr>,
         DistanceMsg \<lparr>current_distance = Fin 2\<rparr>]))
     = ground_distance (state (spin sim_cv (tracker K_cam D_cam (Fin 2)) []))"
    by (simp add: frame Let_def distance_sensor_callback_def tracker_fields)
  show ?thesis
    using same
      frame_result_history_free [of sim_cv "tracker K_cam D_cam (Fin 2)" "frame [square_marker]"
        "[ImageMsg (frame []), DistanceMsg \<lparr>current_distance = Fin 5\<rparr>,
          DistanceMsg \<lparr>current_distance = Fin 2\<rparr>]" "[]"]
    by simp
qed

text \<open>
  C10. A finite marker size that is zero or negative passes the guard: the pose solver is
  called on the square built from it. Its half side \<open>h\<close>, the \<open>float\<close> quotient of the
  size by 2, is zero or negative, so that the first point (-h, h, 0) has a non-negative
  first and a non-positive second coordinate: the square is turned over, or shrunk to the
  origin when the size is zero. The half is exact for a size of zero and for a size of
  magnitude at least \<open>2 powi (- 125)\<close>, and rounded within \<open>2 powi (- 150)\<close> otherwise. The
  witness runs a stored altitude of -1, which gives the size \<open>- tenth\<close>.
\<close>

theorem nonpositive_size_reaches_solver:
  assumes "marker_size n m = Some (Fin r)" and "r \<le> 0"
  shows "passes_guard n m
       \<and> (\<exists>h. fdiv binary32 (Fin r) (Fin 2) = Fin h \<and> h \<le> 0 \<and> h \<le> - h
             \<and> (r = 0 \<or> r \<le> - (2 powi (- 125)) \<longrightarrow> h = r / 2)
             \<and> \<bar>h - r / 2\<bar> \<le> 2 powi (- 150)
             \<and> solve_calls (fst (process_marker cv n img m))
                 = [([(Fin (- h), Fin h, Fin 0), (Fin h, Fin h, Fin 0),
                      (Fin h, Fin (- h), Fin 0), (Fin (- h), Fin (- h), Fin 0)],
                     corners m)])
       \<and> (r = 0 \<longrightarrow> objectPoints (Fin r) = replicate 4 (Fin 0, Fin 0, Fin 0))"
proof -
  have guard: "\<not> isnan (Fin r)" "\<not> isinf (Fin r)"
    by simp_all
  have rep: "representable binary32 r"
    using marker_size_representable [OF assms(1)] .
  obtain h where h: "rnd binary32 (r / 2) = Fin h" "\<bar>h - r / 2\<bar> \<le> 2 powi (- 150)"
      "r = 0 \<or> 2 powi (- 125) \<le> \<bar>r\<bar> \<longrightarrow> h = r / 2" "r \<le> 0 \<longrightarrow> h \<le> 0"
    using half_size_error [OF rep] by blast
  have neg: "h \<le> 0" "h \<le> - h"
    using h(4) assms(2) by simp_all
  have exact: "r = 0 \<or> r \<le> - (2 powi (- 125)) \<longrightarrow> h = r / 2"
    using h(3) assms(2) by auto
  have half: "fdiv binary32 (Fin r) (Fin 2) = Fin h"
    using h(1) by simp
  have calls: "solve_calls (fst (process_marker cv n img m))
                 = [([(Fin (- h), Fin h, Fin 0), (Fin h, Fin h, Fin 0),
                      (Fin h, Fin (- h), Fin 0), (Fin (- h), Fin (- h), Fin 0)],
                     corners m)]"
    using solve_calls_process_marker [OF assms(1) guard]
    by (simp add: objectPoints_Fin [OF h(1)])
  have pass: "passes_guard n m"
    using assms(1) by (simp add: passes_guard_def)
  have origin: "objectPoints (Fin r) = replicate 4 (Fin 0, Fin 0, Fin 0)" if "r = 0"
  proof -
    have "rnd binary32 (r / 2) = Fin 0"
      using rnd_0 [OF wellformed_binary(1)] that by simp
    then show ?thesis
      by (simp add: objectPoints_Fin numeral_eq_Suc)
  qed
  show ?thesis
    using pass half neg exact h(2) calls origin by blast
qed

theorem nonpositive_size_reaches_solver_witness:
  "marker_size (tracker K_cam D_cam (Fin (- 1))) square_marker = Some (Fin (- tenth))
   \<and> - tenth \<le> (0 :: real)
   \<and> - tenth \<le> - (2 powi (- 125))
   \<and> passes_guard (tracker K_cam D_cam (Fin (- 1))) square_marker
   \<and> fdiv binary32 (Fin (- tenth)) (Fin 2) = Fin (- (tenth / 2))
   \<and> solve_calls (fst (process_marker sim_cv (tracker K_cam D_cam (Fin (- 1)))
                         ([square_marker], 1) square_marker))
       = [([(Fin (tenth / 2), Fin (- (tenth / 2)), Fin 0),
            (Fin (- (tenth / 2)), Fin (- (tenth / 2)), Fin 0),
            (Fin (- (tenth / 2)), Fin (tenth / 2), Fin 0),
            (Fin (tenth / 2), Fin (tenth / 2), Fin 0)],
           [(100, 100), (150, 100), (150, 150), (100, 150)])]"
proof -
  have size: "marker_size (tracker K_cam D_cam (Fin (- 1))) square_marker
                = Some (Fin (- tenth))"
    by (rule ms_square(3))
  have neg: "- tenth \<le> (0 :: real)"
    using tenth_pos by simp
  have "(2 :: real) powi (- 125) \<le> 2 powi (- 4)"
    by (simp only: pow2_le_iff)
  also have "\<dots> \<le> tenth"
    by (simp add: tenth_def power_int_minus)
  finally have big: "- tenth \<le> - (2 powi (- 125))"
    by simp
  obtain h where half: "fdiv binary32 (Fin (- tenth)) (Fin 2) = Fin h"
    and exact: "- tenth = 0 \<or> - tenth \<le> - (2 powi (- 125)) \<longrightarrow> h = - tenth / 2"
    and calls: "solve_calls (fst (process_marker sim_cv (tracker K_cam D_cam (Fin (- 1)))
                                   ([square_marker], 1) square_marker))
                  = [([(Fin (- h), Fin h, Fin 0), (Fin h, Fin h, Fin 0),
                       (Fin h, Fin (- h), Fin 0), (Fin (- h), Fin (- h), Fin 0)],
                      corners square_marker)]"
    and pass: "passes_guard (tracker K_cam D_cam (Fin (- 1))) square_marker"
    using nonpositive_size_reaches_solver [OF size neg, where cv = sim_cv
        and img = "([square_marker], 1)"]
    by blast
  have "h = - (tenth / 2)"
    using exact big by simp
  then show ?thesis
    using size neg big pass half calls by (simp add: corners_square)
qed

end
